theory Spec2Isabelle
  imports Complex_Main
begin

section \<open>Errors\<close>

text \<open>
  The notebook raises through \<^verbatim>\<open>assert\<close> (AssertionError), through integer division by
  zero (ZeroDivisionError), through an embedding lookup out of range (IndexError) and
  through the tensor library when shapes do not fit (RuntimeError). It defines no
  exception class of its own.
\<close>

datatype error = AssertionError | ZeroDivisionError | IndexError | RuntimeError

section \<open>Feed-forward hidden dimension (\<^verbatim>\<open>FFN.__init__\<close>)\<close>

text \<open>
  \<^verbatim>\<open>int(a / b)\<close> on Python integers: true division, then truncation toward zero. The
  quotient is a double; it is exact, hence the truncation is that of the rational quotient,
  as long as \<open>|a| < 2^53\<close>, which covers every model dimension in use.
\<close>

definition py_int_truediv :: "int \<Rightarrow> int \<Rightarrow> error + int" where
  "py_int_truediv a b =
     (if b = 0 then Inl ZeroDivisionError
      else Inr (sgn a * sgn b * (\<bar>a\<bar> div \<bar>b\<bar>)))"

text \<open>\<^verbatim>\<open>a // b\<close> on Python integers: floor division, as \<open>div\<close> on \<open>int\<close>.\<close>

definition py_floordiv :: "int \<Rightarrow> int \<Rightarrow> error + int" where
  "py_floordiv a b = (if b = 0 then Inl ZeroDivisionError else Inr (a div b))"

text \<open>
  \<^verbatim>\<open>
  hidden_dim = 4 * dim
  hidden_dim = int(2 * hidden_dim / 3)
  if ffn_dim_multiplier is not None:
      hidden_dim = int(ffn_dim_multiplier * hidden_dim)
  hidden_dim = multiple_of * ((hidden_dim + multiple_of - 1) // multiple_of)
  \<close>
  The multiplier is annotated \<^verbatim>\<open>Optional[int]\<close>, so \<^verbatim>\<open>int(m * h)\<close> is \<open>m * h\<close>.
\<close>

definition FFN_hidden_dim :: "int \<Rightarrow> int \<Rightarrow> int option \<Rightarrow> error + int" where
  "FFN_hidden_dim dim' multiple_of ffn_dim_multiplier =
     (let hidden_dim = 4 * dim' in
      case py_int_truediv (2 * hidden_dim) 3 of
        Inl e \<Rightarrow> Inl e
      | Inr hidden_dim \<Rightarrow>
          let hidden_dim =
                (case ffn_dim_multiplier of
                   None \<Rightarrow> hidden_dim
                 | Some m \<Rightarrow> m * hidden_dim) in
          case py_floordiv (hidden_dim + multiple_of - 1) multiple_of of
            Inl e \<Rightarrow> Inl e
          | Inr q \<Rightarrow> Inr (multiple_of * q))"

section \<open>Tensors\<close>

text \<open>
  A tensor is its shape together with its elements, read by index; only the elements
  at indices inside the shape mean anything. Activations are idealised as real numbers,
  rotation factors as complex numbers. The rank is fixed by the type, as every tensor of
  the notebook has a fixed rank.
\<close>

record 'a tensor2 =
  rows2 :: nat
  cols2 :: nat
  at2 :: "nat \<Rightarrow> nat \<Rightarrow> 'a"

record 'a tensor3 =
  len3_0 :: nat
  len3_1 :: nat
  len3_2 :: nat
  at3 :: "nat \<Rightarrow> nat \<Rightarrow> nat \<Rightarrow> 'a"

record 'a tensor4 =
  len4_0 :: nat
  len4_1 :: nat
  len4_2 :: nat
  len4_3 :: nat
  at4 :: "nat \<Rightarrow> nat \<Rightarrow> nat \<Rightarrow> nat \<Rightarrow> 'a"

text \<open>
  Broadcasting of one dimension: equal sizes, or one of them is 1 (and then the other
  one wins, also when it is 0). An operand of size 1 is read at index 0.
\<close>

definition broadcast_dim :: "nat \<Rightarrow> nat \<Rightarrow> nat option" where
  "broadcast_dim a b =
     (if a = b then Some a else if a = 1 then Some b else if b = 1 then Some a else None)"

definition bidx :: "nat \<Rightarrow> nat \<Rightarrow> nat" where
  "bidx n i = (if n = 1 then 0 else i)"

text \<open>
  In-place operations and slice assignment expand the source to the destination: each
  source dimension equals the destination's or is 1.
\<close>

definition expands_to :: "nat \<Rightarrow> nat \<Rightarrow> bool" where
  "expands_to src dst \<longleftrightarrow> src = dst \<or> src = 1"

text \<open>
  A Python slice \<^verbatim>\<open>[lo:hi]\<close> with non-negative bounds on a dimension of size \<open>n\<close>
  clamps both bounds to \<open>n\<close>; it never raises.
\<close>

definition slice_lo :: "nat \<Rightarrow> nat \<Rightarrow> nat" where
  "slice_lo n lo = min lo n"

definition slice_len :: "nat \<Rightarrow> nat \<Rightarrow> nat \<Rightarrow> nat" where
  "slice_len n lo hi = min hi n - min lo n"

text \<open>\<^verbatim>\<open>t[lo:hi]\<close> on the rows of a matrix.\<close>

definition getitem_rows :: "'a tensor2 \<Rightarrow> nat \<Rightarrow> nat \<Rightarrow> 'a tensor2" where
  "getitem_rows t lo hi =
     \<lparr> rows2 = slice_len (rows2 t) lo hi, cols2 = cols2 t,
       at2 = (\<lambda>i j. at2 t (slice_lo (rows2 t) lo + i) j) \<rparr>"

text \<open>\<^verbatim>\<open>c[:B, :hi]\<close> on a rank-4 tensor.\<close>

definition getitem_bt :: "'a tensor4 \<Rightarrow> nat \<Rightarrow> nat \<Rightarrow> 'a tensor4" where
  "getitem_bt c B hi =
     \<lparr> len4_0 = slice_len (len4_0 c) 0 B, len4_1 = slice_len (len4_1 c) 0 hi,
       len4_2 = len4_2 c, len4_3 = len4_3 c, at4 = at4 c \<rparr>"

text \<open>
  \<^verbatim>\<open>c[:B, lo:hi] = src\<close> on a rank-4 tensor: the source is expanded to the shape of the
  slice, which raises when it cannot be, before anything is written; then the slice is
  overwritten.
\<close>

definition setitem_bt ::
  "'a tensor4 \<Rightarrow> nat \<Rightarrow> nat \<Rightarrow> nat \<Rightarrow> 'a tensor4 \<Rightarrow> error + 'a tensor4" where
  "setitem_bt c B lo hi src =
     (let nb = slice_len (len4_0 c) 0 B;
          nt = slice_len (len4_1 c) lo hi;
          t0 = slice_lo (len4_1 c) lo in
      if expands_to (len4_0 src) nb \<and> expands_to (len4_1 src) nt
         \<and> expands_to (len4_2 src) (len4_2 c) \<and> expands_to (len4_3 src) (len4_3 c)
      then Inr (c \<lparr> at4 := (\<lambda>b t h d.
                  if b < nb \<and> t0 \<le> t \<and> t < t0 + nt \<and> h < len4_2 c \<and> d < len4_3 c
                  then at4 src (bidx (len4_0 src) b) (bidx (len4_1 src) (t - t0))
                               (bidx (len4_2 src) h) (bidx (len4_3 src) d)
                  else at4 c b t h d) \<rparr>)
      else Inl RuntimeError)"

text \<open>\<^verbatim>\<open>nn.Linear\<close> without bias, on the last dimension: \<open>y = x W\<^sup>T\<close>, the weight
  \<open>W\<close> of shape (out, in). The notebook's layers are lazy: the input size is that of the
  first input.\<close>

definition LazyLinear :: "(nat \<Rightarrow> nat \<Rightarrow> real) \<Rightarrow> nat \<Rightarrow> real tensor3 \<Rightarrow> real tensor3" where
  "LazyLinear W n_out x =
     \<lparr> len3_0 = len3_0 x, len3_1 = len3_1 x, len3_2 = n_out,
       at3 = (\<lambda>b t out. \<Sum>i<len3_2 x. at3 x b t i * W out i) \<rparr>"

text \<open>\<^verbatim>\<open>x.view(B, T, H, hs)\<close> of a contiguous (B, T, H * hs) tensor.\<close>

definition view_heads :: "'a tensor3 \<Rightarrow> nat \<Rightarrow> nat \<Rightarrow> 'a tensor4" where
  "view_heads x H hs =
     \<lparr> len4_0 = len3_0 x, len4_1 = len3_1 x, len4_2 = H, len4_3 = hs,
       at4 = (\<lambda>b t h d. at3 x b t (h * hs + d)) \<rparr>"

text \<open>\<^verbatim>\<open>x.transpose(1, 2)\<close>.\<close>

definition transpose12 :: "'a tensor4 \<Rightarrow> 'a tensor4" where
  "transpose12 x =
     \<lparr> len4_0 = len4_0 x, len4_1 = len4_2 x, len4_2 = len4_1 x, len4_3 = len4_3 x,
       at4 = (\<lambda>b h t d. at4 x b t h d) \<rparr>"

text \<open>\<^verbatim>\<open>x.transpose(-2, -1)\<close>.\<close>

definition transpose23 :: "'a tensor4 \<Rightarrow> 'a tensor4" where
  "transpose23 x =
     \<lparr> len4_0 = len4_0 x, len4_1 = len4_1 x, len4_2 = len4_3 x, len4_3 = len4_2 x,
       at4 = (\<lambda>b h d t. at4 x b h t d) \<rparr>"

text \<open>
  \<^verbatim>\<open>torch.matmul\<close> of two rank-4 tensors: the two leading dimensions broadcast, the
  inner dimensions must agree.
\<close>

definition matmul :: "real tensor4 \<Rightarrow> real tensor4 \<Rightarrow> error + real tensor4" where
  "matmul a b =
     (case (broadcast_dim (len4_0 a) (len4_0 b), broadcast_dim (len4_1 a) (len4_1 b)) of
        (Some n0, Some n1) \<Rightarrow>
          if len4_3 a = len4_2 b
          then Inr \<lparr> len4_0 = n0, len4_1 = n1, len4_2 = len4_2 a, len4_3 = len4_3 b,
                     at4 = (\<lambda>i j r c. \<Sum>k<len4_3 a.
                              at4 a (bidx (len4_0 a) i) (bidx (len4_1 a) j) r k
                              * at4 b (bidx (len4_0 b) i) (bidx (len4_1 b) j) k c) \<rparr>
          else Inl RuntimeError
      | _ \<Rightarrow> Inl RuntimeError)"

section \<open>Rotary encoding\<close>

text \<open>
  \<^verbatim>\<open>
  def precomputed_freqs(dim, seqlen, device, theta=10000.0):
      assert dim % 2 == 0, "Dim must be even"
      I = torch.arange(0, dim, 2, dtype=torch.float32, device=device)
      theta = 1.0 / (theta ** (I / dim))
      m = torch.arange(seqlen, device=device).float()
      freqs = torch.outer(m, theta)
      freqs = torch.polar(torch.ones_like(freqs), freqs)
      return freqs
  \<close>
  Entry \<open>(m, i)\<close> is the complex number of modulus 1 and angle
  \<open>m / theta ^ (2 i / dim)\<close>.
\<close>

definition precomputed_freqs :: "nat \<Rightarrow> nat \<Rightarrow> real \<Rightarrow> error + complex tensor2" where
  "precomputed_freqs dim' seqlen theta =
     (if dim' mod 2 \<noteq> 0 then Inl AssertionError
      else Inr \<lparr> rows2 = seqlen, cols2 = dim' div 2,
                 at2 = (\<lambda>m i. cis (real m * (1 / (theta powr (real (2 * i) / real dim'))))) \<rparr>)"

text \<open>
  \<^verbatim>\<open>
  def rope(x, freqs):
      x_cmplx = torch.view_as_complex(x.reshape(*x.shape[:-1], -1, 2))
      freqs = freqs.unsqueeze(0).unsqueeze(2)
      x_rotated = x_cmplx * freqs
      x_rotated = torch.view_as_real(x_rotated).reshape(*x.shape)
      return x_rotated.type_as(x).to(x.device)
  \<close>
  The first reshape raises when the leading dimensions hold no element (the size to
  infer is then ambiguous) and when the last dimension is odd. The product broadcasts
  the positions and the pairs of \<open>x\<close> against the rows and columns of \<open>freqs\<close>. The
  last reshape raises unless the product has as many elements as \<open>x\<close>; whenever it has
  any, it then has the shape of \<open>x_cmplx\<close>.
\<close>

definition rope :: "real tensor4 \<Rightarrow> complex tensor2 \<Rightarrow> error + real tensor4" where
  "rope x freqs =
     (if len4_0 x * len4_1 x * len4_2 x = 0 \<or> len4_3 x mod 2 \<noteq> 0 then Inl RuntimeError
      else
        let x_cmplx = (\<lambda>b t h c. Complex (at4 x b t h (2 * c)) (at4 x b t h (2 * c + 1))) in
        case (broadcast_dim (len4_1 x) (rows2 freqs),
              broadcast_dim (len4_3 x div 2) (cols2 freqs)) of
          (Some nt, Some nc) \<Rightarrow>
            let x_rotated = (\<lambda>b t h c.
                  x_cmplx b (bidx (len4_1 x) t) h (bidx (len4_3 x div 2) c)
                  * at2 freqs (bidx (rows2 freqs) t) (bidx (cols2 freqs) c)) in
            if len4_0 x * nt * len4_2 x * nc * 2 = len4_0 x * len4_1 x * len4_2 x * len4_3 x
            then Inr (x \<lparr> at4 := (\<lambda>b t h d.
                        if d mod 2 = 0 then Re (x_rotated b t h (d div 2))
                        else Im (x_rotated b t h (d div 2))) \<rparr>)
            else Inl RuntimeError
        | _ \<Rightarrow> Inl RuntimeError)"

text \<open>
  \<^verbatim>\<open>
  def rep_tensor(x, n_rep):
      if n_rep == 1:
          return x
      else:
          return torch.repeat_interleave(x, dim=2, repeats=n_rep)
  \<close>
\<close>

definition rep_tensor :: "'a tensor4 \<Rightarrow> nat \<Rightarrow> 'a tensor4" where
  "rep_tensor x n_rep =
     (if n_rep = 1 then x
      else x \<lparr> len4_2 := len4_2 x * n_rep, at4 := (\<lambda>b t h d. at4 x b t (h div n_rep) d) \<rparr>)"

section \<open>RMSNorm\<close>

record RMSNorm =
  rms_dim :: nat
  rms_w :: "nat \<Rightarrow> real"
  rms_eps :: real

text \<open>
  \<^verbatim>\<open>return (x * torch.rsqrt(x.pow(2).mean(-1, keepdim=True) + self.eps)) * self.w\<close>
  The product with the weight broadcasts the last dimension of \<open>x\<close> against the weight's.
\<close>

definition RMSNorm_forward :: "RMSNorm \<Rightarrow> real tensor3 \<Rightarrow> error + real tensor3" where
  "RMSNorm_forward self x =
     (case broadcast_dim (len3_2 x) (rms_dim self) of
        None \<Rightarrow> Inl RuntimeError
      | Some n \<Rightarrow>
          Inr (x \<lparr> len3_2 := n,
                   at3 := (\<lambda>b t c.
                     (at3 x b t (bidx (len3_2 x) c)
                      * (1 / sqrt ((\<Sum>i<len3_2 x. (at3 x b t i)\<^sup>2) / real (len3_2 x) + rms_eps self)))
                     * rms_w self (bidx (rms_dim self) c)) \<rparr>))"

section \<open>Masked scores and softmax\<close>

text \<open>
  The causal mask holds zeros and \<^verbatim>\<open>float("-inf")\<close>, so a masked score is a finite
  number or minus infinity. The softmax gives weight \<open>exp s / \<Sum> exp\<close>, with
  \<open>exp (-\<infinity>) = 0\<close>. (A row of nothing but minus infinity has no weights in floating
  point; here it is a row of zeros.)
\<close>

datatype fval = Fin real | NegInf

fun add_fval :: "real \<Rightarrow> fval \<Rightarrow> fval" where
  "add_fval r (Fin m) = Fin (r + m)"
| "add_fval r NegInf = NegInf"

fun exp_fval :: "fval \<Rightarrow> real" where
  "exp_fval (Fin r) = exp r"
| "exp_fval NegInf = 0"

text \<open>\<^verbatim>\<open>F.softmax(attn, dim=-1)\<close>.\<close>

definition softmax :: "fval tensor4 \<Rightarrow> real tensor4" where
  "softmax a =
     \<lparr> len4_0 = len4_0 a, len4_1 = len4_1 a, len4_2 = len4_2 a, len4_3 = len4_3 a,
       at4 = (\<lambda>b h t s. exp_fval (at4 a b h t s) / (\<Sum>j<len4_3 a. exp_fval (at4 a b h t j))) \<rparr>"

text \<open>
  \<^verbatim>\<open>
  if mask is not None:
      attn += mask
  \<close>
  The addition is in place: the mask is expanded to the shape of the scores.
\<close>

definition add_mask :: "real tensor4 \<Rightarrow> fval tensor2 option \<Rightarrow> error + fval tensor4" where
  "add_mask attn mask' =
     (case mask' of
        None \<Rightarrow>
          Inr \<lparr> len4_0 = len4_0 attn, len4_1 = len4_1 attn, len4_2 = len4_2 attn,
                 len4_3 = len4_3 attn, at4 = (\<lambda>b h t s. Fin (at4 attn b h t s)) \<rparr>
      | Some m \<Rightarrow>
          if expands_to (rows2 m) (len4_2 attn) \<and> expands_to (cols2 m) (len4_3 attn)
          then Inr \<lparr> len4_0 = len4_0 attn, len4_1 = len4_1 attn, len4_2 = len4_2 attn,
                      len4_3 = len4_3 attn,
                      at4 = (\<lambda>b h t s. add_fval (at4 attn b h t s)
                                          (at2 m (bidx (rows2 m) t) (bidx (cols2 m) s))) \<rparr>
          else Inl RuntimeError)"

section \<open>Model configuration\<close>

text \<open>The dataclass \<^verbatim>\<open>Args\<close> (the device is left out).\<close>

record Args =
  dim' :: nat
  n_layers :: nat
  n_heads :: nat
  n_kv_heads :: "nat option"
  vocab_size :: nat
  multiple_of :: nat
  ffn_dim_multiplier :: "int option"
  norm_eps :: real
  batch_size :: nat
  seq_len :: nat

section \<open>Self-attention with a key/value cache\<close>

text \<open>
  The module's fields. The four projections are \<^verbatim>\<open>nn.LazyLinear\<close> without bias; the two
  caches have shape (batch_size, seq_len, n_kv_heads, h_size) and are the module's only
  mutable state.
\<close>

record SelfAttention =
  sa_dim :: nat
  n_q_heads :: nat
  sa_n_kv_heads :: nat
  n_rep :: nat
  h_size :: nat
  wq :: "nat \<Rightarrow> nat \<Rightarrow> real"
  wk :: "nat \<Rightarrow> nat \<Rightarrow> real"
  wv :: "nat \<Rightarrow> nat \<Rightarrow> real"
  wo :: "nat \<Rightarrow> nat \<Rightarrow> real"
  k_cache :: "real tensor4"
  v_cache :: "real tensor4"

text \<open>
  \<^verbatim>\<open>
  self.dim = args.dim
  self.n_q_heads = args.n_heads
  self.n_kv_heads = args.n_heads if args.n_kv_heads is None else args.n_kv_heads
  assert self.n_q_heads % self.n_kv_heads == 0
  self.n_rep = self.n_q_heads // self.n_kv_heads
  self.h_size = args.dim // args.n_heads
  ...
  self.k_cache = torch.empty((args.batch_size, args.seq_len, self.n_kv_heads, self.h_size))
  self.v_cache = torch.empty((args.batch_size, args.seq_len, self.n_kv_heads, self.h_size))
  \<close>
  The weights (loaded from a checkpoint) and the contents of the freshly allocated
  caches (\<^verbatim>\<open>torch.empty\<close>: whatever the memory held) are parameters.
\<close>

definition SelfAttention_init ::
  "Args \<Rightarrow> (nat \<Rightarrow> nat \<Rightarrow> real) \<Rightarrow> (nat \<Rightarrow> nat \<Rightarrow> real) \<Rightarrow> (nat \<Rightarrow> nat \<Rightarrow> real)
     \<Rightarrow> (nat \<Rightarrow> nat \<Rightarrow> real)
     \<Rightarrow> (nat \<Rightarrow> nat \<Rightarrow> nat \<Rightarrow> nat \<Rightarrow> real) \<Rightarrow> (nat \<Rightarrow> nat \<Rightarrow> nat \<Rightarrow> nat \<Rightarrow> real)
     \<Rightarrow> error + SelfAttention" where
  "SelfAttention_init args Wq Wk Wv Wo k_empty v_empty =
     (let n_q = n_heads args;
          n_kv = (case n_kv_heads args of None \<Rightarrow> n_heads args | Some n \<Rightarrow> n) in
      if n_kv = 0 then Inl ZeroDivisionError
      else if n_q mod n_kv \<noteq> 0 then Inl AssertionError
      else if n_heads args = 0 then Inl ZeroDivisionError
      else
        let hs = dim' args div n_heads args in
        Inr \<lparr> sa_dim = dim' args, n_q_heads = n_q, sa_n_kv_heads = n_kv,
               n_rep = n_q div n_kv, h_size = hs,
               wq = Wq, wk = Wk, wv = Wv, wo = Wo,
               k_cache = \<lparr> len4_0 = batch_size args, len4_1 = seq_len args,
                           len4_2 = n_kv, len4_3 = hs, at4 = k_empty \<rparr>,
               v_cache = \<lparr> len4_0 = batch_size args, len4_1 = seq_len args,
                           len4_2 = n_kv, len4_3 = hs, at4 = v_empty \<rparr> \<rparr>)"

text \<open>Multiplication of every element by a scalar.\<close>

definition scale :: "real tensor4 \<Rightarrow> real \<Rightarrow> real tensor4" where
  "scale a c = a \<lparr> at4 := (\<lambda>i j r s. at4 a i j r s * c) \<rparr>"

text \<open>
  The attention weights:
  \<^verbatim>\<open>
  attn = torch.matmul(q, k.transpose(-2, -1)) * math.sqrt(self.h_size)
  if mask is not None:
      attn += mask
  attn = F.softmax(attn, dim=-1)
  \<close>
\<close>

definition attn_weights ::
  "real tensor4 \<Rightarrow> real tensor4 \<Rightarrow> nat \<Rightarrow> fval tensor2 option \<Rightarrow> error + real tensor4" where
  "attn_weights q k hs mask' =
     (case matmul q (transpose23 k) of
        Inl e \<Rightarrow> Inl e
      | Inr attn \<Rightarrow>
          (case add_mask (scale attn (sqrt (real hs))) mask' of
             Inl e \<Rightarrow> Inl e
           | Inr attn \<Rightarrow> Inr (softmax attn)))"

text \<open>
  \<^verbatim>\<open>attn.contiguous().view(B, T, C)\<close> on a tensor of shape (b, t, h, d): it raises unless
  the numbers of elements agree. The heads are merged into the last dimension; when the
  tensor has any element, its shape is then (B, T, h, d) with \<open>h * d = C\<close>.
\<close>

definition view_merged :: "real tensor4 \<Rightarrow> nat \<Rightarrow> nat \<Rightarrow> nat \<Rightarrow> error + real tensor3" where
  "view_merged a B T C =
     (if len4_0 a * len4_1 a * len4_2 a * len4_3 a = B * T * C
      then Inr \<lparr> len3_0 = B, len3_1 = T, len3_2 = C,
                 at3 = (\<lambda>b t c. at4 a b t (c div len4_3 a) (c mod len4_3 a)) \<rparr>
      else Inl RuntimeError)"

text \<open>
  The rest of the forward pass, from the attention weights to the output projection:
  \<^verbatim>\<open>
  attn = torch.matmul(attn, v)
  attn = attn.transpose(1, 2).contiguous().view(B, T, self.n_q_heads * self.h_size)
  attn = self.wo(attn)
  \<close>
\<close>

definition attn_output ::
  "SelfAttention \<Rightarrow> real tensor4 \<Rightarrow> real tensor4 \<Rightarrow> nat \<Rightarrow> nat \<Rightarrow> error + real tensor3" where
  "attn_output self attn v B T =
     (case matmul attn v of
        Inl e \<Rightarrow> Inl e
      | Inr attn \<Rightarrow>
          (case view_merged (transpose12 attn) B T (n_q_heads self * h_size self) of
             Inl e \<Rightarrow> Inl e
           | Inr attn \<Rightarrow> Inr (LazyLinear (wo self) (sa_dim self) attn)))"

text \<open>
  The tensors that the scores and the weighted sum are computed from, read after the
  cache has been written:
  \<^verbatim>\<open>
  k = self.v_cache[:B, :start_pos + T]
  v = self.v_cache[:B, :start_pos + T]
  k, v = rep_tensor(k, self.n_rep), rep_tensor(v, self.n_rep)
  \<close>
\<close>

definition read_kv :: "SelfAttention \<Rightarrow> nat \<Rightarrow> nat \<Rightarrow> real tensor4 \<times> real tensor4" where
  "read_kv self B hi =
     (let k = getitem_bt (v_cache self) B hi;
          v = getitem_bt (v_cache self) B hi
      in (rep_tensor k (n_rep self), rep_tensor v (n_rep self)))"

text \<open>
  The projections of the input, split into heads, the queries and keys rotated:
  \<^verbatim>\<open>
  q = self.wq(x)
  _k = self.wk(x)
  _v = self.wv(x)
  q = q.view(B, T, self.n_q_heads, self.h_size)
  _k = _k.view(B, T, self.n_kv_heads, self.h_size)
  _v = _v.view(B, T, self.n_kv_heads, self.h_size)
  q = rope(q, freqs)
  _k = rope(_k, freqs)
  \<close>
\<close>

definition project_qkv ::
  "SelfAttention \<Rightarrow> real tensor3 \<Rightarrow> complex tensor2
     \<Rightarrow> error + real tensor4 \<times> real tensor4 \<times> real tensor4" where
  "project_qkv self x freqs =
     (let q = LazyLinear (wq self) (n_q_heads self * h_size self) x;
          k' = LazyLinear (wk self) (sa_n_kv_heads self * h_size self) x;
          v' = LazyLinear (wv self) (sa_n_kv_heads self * h_size self) x;
          q = view_heads q (n_q_heads self) (h_size self);
          k' = view_heads k' (sa_n_kv_heads self) (h_size self);
          v' = view_heads v' (sa_n_kv_heads self) (h_size self)
      in
      case rope q freqs of
        Inl e \<Rightarrow> Inl e
      | Inr q \<Rightarrow>
          (case rope k' freqs of
             Inl e \<Rightarrow> Inl e
           | Inr k' \<Rightarrow> Inr (q, k', v')))"

text \<open>
  The cache writes, one after the other:
  \<^verbatim>\<open>
  self.k_cache[:B, start_pos :start_pos + T] = _k
  self.v_cache[:B, start_pos :start_pos + T] = _v
  \<close>
  The result is the error raised, if any, and the module as the writes leave it.
\<close>

definition write_kv ::
  "SelfAttention \<Rightarrow> nat \<Rightarrow> nat \<Rightarrow> nat \<Rightarrow> real tensor4 \<Rightarrow> real tensor4
     \<Rightarrow> error option \<times> SelfAttention" where
  "write_kv self B start_pos T k' v' =
     (case setitem_bt (k_cache self) B start_pos (start_pos + T) k' of
        Inl e \<Rightarrow> (Some e, self)
      | Inr kc \<Rightarrow>
          let self = self \<lparr> k_cache := kc \<rparr> in
          (case setitem_bt (v_cache self) B start_pos (start_pos + T) v' of
             Inl e \<Rightarrow> (Some e, self)
           | Inr vc \<Rightarrow> (None, self \<lparr> v_cache := vc \<rparr>)))"

text \<open>
  \<^verbatim>\<open>SelfAttention.forward(self, x, start_pos, freqs, mask=None)\<close>: the two assertions, the
  projections, the cache writes, the cache reads, the transpositions to
  (B, heads, positions, h_size), the attention weights and the output. The result is the
  output or the error raised, together with the module as the call leaves it. The start
  position is a count of cached positions, a natural number.
\<close>

definition SelfAttention_forward ::
  "SelfAttention \<Rightarrow> real tensor3 \<Rightarrow> nat \<Rightarrow> complex tensor2 \<Rightarrow> fval tensor2 option
     \<Rightarrow> (error + real tensor3) \<times> SelfAttention" where
  "SelfAttention_forward self x start_pos freqs mask' =
     (let B = len3_0 x; T = len3_1 x; D = len3_2 x in
      if D \<noteq> sa_dim self then (Inl AssertionError, self)
      else if D \<noteq> n_q_heads self * h_size self then (Inl AssertionError, self)
      else
        case project_qkv self x freqs of
          Inl e \<Rightarrow> (Inl e, self)
        | Inr (q, k', v') \<Rightarrow>
            (case write_kv self B start_pos T k' v' of
               (Some e, self) \<Rightarrow> (Inl e, self)
             | (None, self) \<Rightarrow>
                 let (k, v) = read_kv self B (start_pos + T);
                     q = transpose12 q;
                     k = transpose12 k;
                     v = transpose12 v
                 in
                 (case attn_weights q k (h_size self) mask' of
                    Inl e \<Rightarrow> (Inl e, self)
                  | Inr attn \<Rightarrow> (attn_output self attn v B T, self))))"

text \<open>
  What every call keeps of a module built from \<open>args\<close>: the fields set by
  \<^verbatim>\<open>__init__\<close> and the shapes of the two caches. Only the cache contents change.
\<close>

definition SelfAttention_of :: "Args \<Rightarrow> SelfAttention \<Rightarrow> bool" where
  "SelfAttention_of args self \<longleftrightarrow>
     sa_dim self = dim' args \<and> n_q_heads self = n_heads args
     \<and> sa_n_kv_heads self = (case n_kv_heads args of None \<Rightarrow> n_heads args | Some n \<Rightarrow> n)
     \<and> 0 < sa_n_kv_heads self \<and> n_q_heads self mod sa_n_kv_heads self = 0
     \<and> 0 < n_q_heads self
     \<and> n_rep self = n_q_heads self div sa_n_kv_heads self
     \<and> h_size self = dim' args div n_heads args
     \<and> len4_0 (k_cache self) = batch_size args \<and> len4_1 (k_cache self) = seq_len args
     \<and> len4_2 (k_cache self) = sa_n_kv_heads self \<and> len4_3 (k_cache self) = h_size self
     \<and> len4_0 (v_cache self) = batch_size args \<and> len4_1 (v_cache self) = seq_len args
     \<and> len4_2 (v_cache self) = sa_n_kv_heads self \<and> len4_3 (v_cache self) = h_size self"

section \<open>Feed-forward block\<close>

record FFN =
  ffn_dim :: nat
  hidden_dim :: nat
  w1 :: "nat \<Rightarrow> nat \<Rightarrow> real"
  w2 :: "nat \<Rightarrow> nat \<Rightarrow> real"
  w3 :: "nat \<Rightarrow> nat \<Rightarrow> real"

text \<open>
  \<^verbatim>\<open>FFN.__init__(self, dim, multiple_of, ffn_dim_multiplier=None)\<close>: the hidden dimension
  computed above is the output size of \<^verbatim>\<open>w1\<close> and \<^verbatim>\<open>w3\<close>. A negative size (from a
  negative multiplier) is no size of a layer.
\<close>

definition FFN_init ::
  "nat \<Rightarrow> nat \<Rightarrow> int option \<Rightarrow> (nat \<Rightarrow> nat \<Rightarrow> real) \<Rightarrow> (nat \<Rightarrow> nat \<Rightarrow> real)
     \<Rightarrow> (nat \<Rightarrow> nat \<Rightarrow> real) \<Rightarrow> error + FFN" where
  "FFN_init dm mult_of mult W1 W2 W3 =
     (case FFN_hidden_dim (int dm) (int mult_of) mult of
        Inl e \<Rightarrow> Inl e
      | Inr h \<Rightarrow>
          if h < 0 then Inl RuntimeError
          else Inr \<lparr> ffn_dim = dm, hidden_dim = nat h, w1 = W1, w2 = W2, w3 = W3 \<rparr>)"

text \<open>\<^verbatim>\<open>F.silu\<close>: \<open>z * sigmoid z\<close>.\<close>

definition silu :: "real \<Rightarrow> real" where
  "silu z = z * (1 / (1 + exp (- z)))"

text \<open>\<^verbatim>\<open>return self.w2(F.silu(self.w1(x)) * self.w3(x))\<close>\<close>

definition FFN_forward :: "FFN \<Rightarrow> real tensor3 \<Rightarrow> real tensor3" where
  "FFN_forward self x =
     (let a = LazyLinear (w1 self) (hidden_dim self) x;
          b = LazyLinear (w3 self) (hidden_dim self) x;
          g = a \<lparr> at3 := (\<lambda>i t c. silu (at3 a i t c) * at3 b i t c) \<rparr>
      in LazyLinear (w2 self) (ffn_dim self) g)"

section \<open>Transformer block\<close>

text \<open>Elementwise sum of two rank-3 tensors, with broadcasting.\<close>

definition add3 :: "real tensor3 \<Rightarrow> real tensor3 \<Rightarrow> error + real tensor3" where
  "add3 x y =
     (case (broadcast_dim (len3_0 x) (len3_0 y), broadcast_dim (len3_1 x) (len3_1 y),
            broadcast_dim (len3_2 x) (len3_2 y)) of
        (Some n0, Some n1, Some n2) \<Rightarrow>
          Inr \<lparr> len3_0 = n0, len3_1 = n1, len3_2 = n2,
                 at3 = (\<lambda>b t c.
                   at3 x (bidx (len3_0 x) b) (bidx (len3_1 x) t) (bidx (len3_2 x) c)
                   + at3 y (bidx (len3_0 y) b) (bidx (len3_1 y) t) (bidx (len3_2 y) c)) \<rparr>
      | _ \<Rightarrow> Inl RuntimeError)"

record TransformerBlock =
  attention :: SelfAttention
  attn_norm :: RMSNorm
  ffn :: FFN
  ffn_norm :: RMSNorm

text \<open>The parameters of one block, as a checkpoint provides them, and the contents of
  its freshly allocated caches.\<close>

record BlockWeights =
  bw_wq :: "nat \<Rightarrow> nat \<Rightarrow> real"
  bw_wk :: "nat \<Rightarrow> nat \<Rightarrow> real"
  bw_wv :: "nat \<Rightarrow> nat \<Rightarrow> real"
  bw_wo :: "nat \<Rightarrow> nat \<Rightarrow> real"
  bw_attn_norm :: "nat \<Rightarrow> real"
  bw_w1 :: "nat \<Rightarrow> nat \<Rightarrow> real"
  bw_w2 :: "nat \<Rightarrow> nat \<Rightarrow> real"
  bw_w3 :: "nat \<Rightarrow> nat \<Rightarrow> real"
  bw_ffn_norm :: "nat \<Rightarrow> real"
  bw_k_empty :: "nat \<Rightarrow> nat \<Rightarrow> nat \<Rightarrow> nat \<Rightarrow> real"
  bw_v_empty :: "nat \<Rightarrow> nat \<Rightarrow> nat \<Rightarrow> nat \<Rightarrow> real"

text \<open>
  \<^verbatim>\<open>
  self.attention = SelfAttention(args)
  self.attn_norm = RMSNorm(args.dim)
  self.ffn = FFN(args.dim, args.multiple_of)
  self.ffn_norm = RMSNorm(args.dim)
  \<close>
  \<^verbatim>\<open>RMSNorm\<close> defaults to \<^verbatim>\<open>eps=1e-6\<close>; the multiplier of \<^verbatim>\<open>Args\<close> is not passed on.
\<close>

definition TransformerBlock_init :: "Args \<Rightarrow> BlockWeights \<Rightarrow> error + TransformerBlock" where
  "TransformerBlock_init args bw =
     (case SelfAttention_init args (bw_wq bw) (bw_wk bw) (bw_wv bw) (bw_wo bw)
             (bw_k_empty bw) (bw_v_empty bw) of
        Inl e \<Rightarrow> Inl e
      | Inr att \<Rightarrow>
          (case FFN_init (dim' args) (multiple_of args) None (bw_w1 bw) (bw_w2 bw) (bw_w3 bw) of
             Inl e \<Rightarrow> Inl e
           | Inr f \<Rightarrow>
               Inr \<lparr> attention = att,
                      attn_norm = \<lparr> rms_dim = dim' args, rms_w = bw_attn_norm bw,
                                    rms_eps = 1 / 10 ^ 6 \<rparr>,
                      ffn = f,
                      ffn_norm = \<lparr> rms_dim = dim' args, rms_w = bw_ffn_norm bw,
                                   rms_eps = 1 / 10 ^ 6 \<rparr> \<rparr>))"

text \<open>
  \<^verbatim>\<open>
  def forward(self, x, start_pos, freqs, mask=None):
      x_ = x + self.attention(self.attn_norm(x), start_pos, mask, freqs)
      out = x_ + self.ffn(self.ffn_norm(x_))
      return out
  \<close>
  The arguments are positional. The block hands its parameter \<^verbatim>\<open>mask\<close> to the third
  parameter of \<^verbatim>\<open>SelfAttention.forward\<close>, which is \<^verbatim>\<open>freqs\<close>, and its parameter \<^verbatim>\<open>freqs\<close>
  to the fourth, which is \<^verbatim>\<open>mask\<close>. The parameters keep the source's names and order
  here, so the one named \<open>freqs\<close> has the type of a mask and the one named \<open>mask'\<close> the
  type of a table of rotation factors.
\<close>

definition TransformerBlock_forward ::
  "TransformerBlock \<Rightarrow> real tensor3 \<Rightarrow> nat \<Rightarrow> fval tensor2 option \<Rightarrow> complex tensor2
     \<Rightarrow> (error + real tensor3) \<times> TransformerBlock" where
  "TransformerBlock_forward self x start_pos freqs mask' =
     (case RMSNorm_forward (attn_norm self) x of
        Inl e \<Rightarrow> (Inl e, self)
      | Inr xn \<Rightarrow>
          (case SelfAttention_forward (attention self) xn start_pos mask' freqs of
             (Inl e, att) \<Rightarrow> (Inl e, self \<lparr> attention := att \<rparr>)
           | (Inr a, att) \<Rightarrow>
               let self = self \<lparr> attention := att \<rparr> in
               (case add3 x a of
                  Inl e \<Rightarrow> (Inl e, self)
                | Inr x1 \<Rightarrow>
                    (case RMSNorm_forward (ffn_norm self) x1 of
                       Inl e \<Rightarrow> (Inl e, self)
                     | Inr xn \<Rightarrow> (add3 x1 (FFN_forward (ffn self) xn), self)))))"

section \<open>Transformer\<close>

record Transformer =
  t_args :: Args
  tok_embeddings :: "nat \<Rightarrow> nat \<Rightarrow> real"
  layers :: "TransformerBlock list"
  norm' :: RMSNorm
  out :: "nat \<Rightarrow> nat \<Rightarrow> real"
  freqs_table :: "complex tensor2"

text \<open>
  \<^verbatim>\<open>
  for layer in range(self.n_layers):
      self.layers.append(TransformerBlock(args))
  \<close>
  with one set of weights per layer.
\<close>

fun init_layers :: "Args \<Rightarrow> BlockWeights list \<Rightarrow> error + TransformerBlock list" where
  "init_layers args [] = Inr []"
| "init_layers args (bw # bws) =
     (case TransformerBlock_init args bw of
        Inl e \<Rightarrow> Inl e
      | Inr blk \<Rightarrow>
          (case init_layers args bws of
             Inl e \<Rightarrow> Inl e
           | Inr blks \<Rightarrow> Inr (blk # blks)))"

text \<open>
  \<^verbatim>\<open>
  self.norm = RMSNorm(args.dim, args.norm_eps)
  self.out = nn.LazyLinear(self.vocab_size, bias=False)
  self.freqs = precomputed_freqs(args.dim // args.n_heads, args.seq_len * 2, args.device)
  \<close>
  Layer \<open>i\<close> gets the weights \<open>bws i\<close>.
\<close>

definition Transformer_init ::
  "Args \<Rightarrow> (nat \<Rightarrow> nat \<Rightarrow> real) \<Rightarrow> (nat \<Rightarrow> BlockWeights) \<Rightarrow> (nat \<Rightarrow> real)
     \<Rightarrow> (nat \<Rightarrow> nat \<Rightarrow> real) \<Rightarrow> error + Transformer" where
  "Transformer_init args emb bws norm_w out_w =
     (case init_layers args (map bws [0..<n_layers args]) of
        Inl e \<Rightarrow> Inl e
      | Inr blks \<Rightarrow>
          if n_heads args = 0 then Inl ZeroDivisionError
          else
            (case precomputed_freqs (dim' args div n_heads args) (seq_len args * 2) 10000 of
               Inl e \<Rightarrow> Inl e
             | Inr fr \<Rightarrow>
                 Inr \<lparr> t_args = args, tok_embeddings = emb, layers = blks,
                        norm' = \<lparr> rms_dim = dim' args, rms_w = norm_w,
                                  rms_eps = norm_eps args \<rparr>,
                        out = out_w, freqs_table = fr \<rparr>))"

text \<open>
  The causal mask of a call with \<open>T > 1\<close>:
  \<^verbatim>\<open>
  mask = torch.full((T, T), float("-inf"), device=x.device)
  mask = torch.triu(mask, diagonal=1)
  mask = torch.hstack([torch.zeros((T, start_pos), device=x.device), mask]).type_as(x_embd)
  \<close>
\<close>

definition full_neg_inf :: "nat \<Rightarrow> nat \<Rightarrow> fval tensor2" where
  "full_neg_inf r c = \<lparr> rows2 = r, cols2 = c, at2 = (\<lambda>i j. NegInf) \<rparr>"

text \<open>\<^verbatim>\<open>torch.triu(m, diagonal=1)\<close>: the elements with \<open>j - i \<ge> 1\<close> are kept, the others
  are zero.\<close>

definition triu1 :: "fval tensor2 \<Rightarrow> fval tensor2" where
  "triu1 m = m \<lparr> at2 := (\<lambda>i j. if i + 1 \<le> j then at2 m i j else Fin 0) \<rparr>"

text \<open>\<^verbatim>\<open>torch.hstack([torch.zeros((T, n)), m])\<close> for a matrix \<open>m\<close> of \<open>T\<close> rows.\<close>

definition hstack_zeros :: "nat \<Rightarrow> fval tensor2 \<Rightarrow> fval tensor2" where
  "hstack_zeros n m =
     \<lparr> rows2 = rows2 m, cols2 = n + cols2 m,
       at2 = (\<lambda>i j. if j < n then Fin 0 else at2 m i (j - n)) \<rparr>"

definition causal_mask :: "nat \<Rightarrow> nat \<Rightarrow> fval tensor2 option" where
  "causal_mask T start_pos =
     (if T > 1 then Some (hstack_zeros start_pos (triu1 (full_neg_inf T T))) else None)"

text \<open>\<^verbatim>\<open>self.tok_embeddings(x)\<close>: a token id outside the vocabulary raises.\<close>

definition embedding ::
  "(nat \<Rightarrow> nat \<Rightarrow> real) \<Rightarrow> nat \<Rightarrow> nat \<Rightarrow> nat tensor2 \<Rightarrow> error + real tensor3" where
  "embedding E vocab dm x =
     (if \<exists>b<rows2 x. \<exists>t<cols2 x. vocab \<le> at2 x b t then Inl IndexError
      else Inr \<lparr> len3_0 = rows2 x, len3_1 = cols2 x, len3_2 = dm,
                 at3 = (\<lambda>b t c. E (at2 x b t) c) \<rparr>)"

text \<open>
  \<^verbatim>\<open>
  for layer in self.layers:
      x_embd = layer(x_embd, start_pos, mask, freqs)
  \<close>
  The arguments are positional: the mask goes to the block's third parameter, which the
  block calls \<^verbatim>\<open>freqs\<close>, and the rotation factors to its fourth, which it calls \<^verbatim>\<open>mask\<close>.
  The result carries every layer as the loop leaves it, also when a layer raises.
\<close>

fun run_layers ::
  "TransformerBlock list \<Rightarrow> real tensor3 \<Rightarrow> nat \<Rightarrow> fval tensor2 option \<Rightarrow> complex tensor2
     \<Rightarrow> (error + real tensor3) \<times> TransformerBlock list" where
  "run_layers [] x_embd start_pos mask' freqs = (Inr x_embd, [])"
| "run_layers (layer # ls) x_embd start_pos mask' freqs =
     (case TransformerBlock_forward layer x_embd start_pos mask' freqs of
        (Inl e, layer') \<Rightarrow> (Inl e, layer' # ls)
      | (Inr x_embd, layer') \<Rightarrow>
          (case run_layers ls x_embd start_pos mask' freqs of
             (r, ls') \<Rightarrow> (r, layer' # ls')))"

text \<open>
  \<^verbatim>\<open>
  def forward(self, x, start_pos):
      B, T = x.shape
      x_embd = self.tok_embeddings(x)
      freqs = self.freqs[start_pos:start_pos + T]
      mask = None
      if T > 1:
          ...
      for layer in self.layers:
          x_embd = layer(x_embd, start_pos, mask, freqs)
      x_embd = self.norm(x_embd)
      return self.out(x_embd)
  \<close>
\<close>

definition Transformer_forward ::
  "Transformer \<Rightarrow> nat tensor2 \<Rightarrow> nat \<Rightarrow> (error + real tensor3) \<times> Transformer" where
  "Transformer_forward self x start_pos =
     (let B = rows2 x; T = cols2 x in
      case embedding (tok_embeddings self) (vocab_size (t_args self)) (dim' (t_args self)) x of
        Inl e \<Rightarrow> (Inl e, self)
      | Inr x_embd \<Rightarrow>
          let freqs = getitem_rows (freqs_table self) start_pos (start_pos + T);
              mask' = causal_mask T start_pos
          in
          (case run_layers (layers self) x_embd start_pos mask' freqs of
             (Inl e, ls) \<Rightarrow> (Inl e, self \<lparr> layers := ls \<rparr>)
           | (Inr x_embd, ls) \<Rightarrow>
               let self = self \<lparr> layers := ls \<rparr> in
               (case RMSNorm_forward (norm' self) x_embd of
                  Inl e \<Rightarrow> (Inl e, self)
                | Inr x_embd \<Rightarrow>
                    (Inr (LazyLinear (out self) (vocab_size (t_args self)) x_embd), self))))"

section \<open>Calls that succeed, and a small instance\<close>

text \<open>
  A sufficient condition for \<^verbatim>\<open>SelfAttention.forward\<close> to return: the assertions pass,
  nothing is empty, the head size is even, the rotation factors have one row per new
  position, the batch fits the caches, the new keys and values expand to the cache slice,
  and the mask (if any) expands to the scores.
\<close>

definition call_ok ::
  "SelfAttention \<Rightarrow> real tensor3 \<Rightarrow> nat \<Rightarrow> complex tensor2 \<Rightarrow> fval tensor2 option \<Rightarrow> bool" where
  "call_ok self x sp fr mk \<longleftrightarrow>
     len3_2 x = sa_dim self \<and> len3_2 x = n_q_heads self * h_size self
     \<and> 0 < len3_0 x \<and> 0 < len3_1 x \<and> 0 < n_q_heads self \<and> 0 < sa_n_kv_heads self
     \<and> h_size self mod 2 = 0
     \<and> n_q_heads self = sa_n_kv_heads self * n_rep self
     \<and> rows2 fr = len3_1 x \<and> cols2 fr = h_size self div 2
     \<and> len3_0 x \<le> len4_0 (k_cache self)
     \<and> expands_to (len3_1 x) (slice_len (len4_1 (k_cache self)) sp (sp + len3_1 x))
     \<and> len4_2 (k_cache self) = sa_n_kv_heads self \<and> len4_3 (k_cache self) = h_size self
     \<and> len3_0 x \<le> len4_0 (v_cache self)
     \<and> expands_to (len3_1 x) (slice_len (len4_1 (v_cache self)) sp (sp + len3_1 x))
     \<and> len4_2 (v_cache self) = sa_n_kv_heads self \<and> len4_3 (v_cache self) = h_size self
     \<and> (case mk of None \<Rightarrow> True
         | Some m \<Rightarrow> expands_to (rows2 m) (len3_1 x)
             \<and> expands_to (cols2 m) (slice_len (len4_1 (v_cache self)) 0 (sp + len3_1 x)))"


text \<open>
  A module with one head of size 2, a cache for one sequence of two positions, identity
  projections for queries and keys and a zero projection for values; an input of one
  token; an input of two tokens; an input of the wrong width; the table of rotation factors for head size 2.
\<close>

definition ex_args :: Args where
  "ex_args = \<lparr> dim' = 2, n_layers = 1, n_heads = 1, n_kv_heads = None, vocab_size = 2,
       multiple_of = 1, ffn_dim_multiplier = None, norm_eps = 1 / 10 ^ 5,
       batch_size = 1, seq_len = 2 \<rparr>"

definition ex_id :: "nat \<Rightarrow> nat \<Rightarrow> real" where
  "ex_id c i = (if c = i then 1 else 0)"

definition ex_attention :: SelfAttention where
  "ex_attention =
     \<lparr> sa_dim = 2, n_q_heads = 1, sa_n_kv_heads = 1, n_rep = 1, h_size = 2,
       wq = ex_id, wk = ex_id, wv = (\<lambda>c i. 0), wo = ex_id,
       k_cache = \<lparr> len4_0 = 1, len4_1 = 2, len4_2 = 1, len4_3 = 2, at4 = (\<lambda>b t h d. 0) \<rparr>,
       v_cache = \<lparr> len4_0 = 1, len4_1 = 2, len4_2 = 1, len4_3 = 2, at4 = (\<lambda>b t h d. 0) \<rparr> \<rparr>"

definition ex_x :: "real tensor3" where
  "ex_x = \<lparr> len3_0 = 1, len3_1 = 1, len3_2 = 2, at3 = (\<lambda>b t c. if c = 0 then 1 else 0) \<rparr>"

definition ex_x2 :: "real tensor3" where
  "ex_x2 = \<lparr> len3_0 = 1, len3_1 = 2, len3_2 = 2, at3 = (\<lambda>b t c. if c = t then 1 else 0) \<rparr>"

definition ex_x3 :: "real tensor3" where
  "ex_x3 = \<lparr> len3_0 = 1, len3_1 = 1, len3_2 = 3, at3 = (\<lambda>b t c. 1) \<rparr>"

definition ex_table :: "complex tensor2" where
  "ex_table = \<lparr> rows2 = 4, cols2 = 1,
       at2 = (\<lambda>m i. cis (real m * (1 / (10000 powr (real (2 * i) / real 2))))) \<rparr>"


text \<open>Two tensors of the same shape.\<close>

definition same_shape4 :: "'a tensor4 \<Rightarrow> 'b tensor4 \<Rightarrow> bool" where
  "same_shape4 a b \<longleftrightarrow> len4_0 a = len4_0 b \<and> len4_1 a = len4_1 b \<and> len4_2 a = len4_2 b \<and> len4_3 a = len4_3 b"

section \<open>A decoding session\<close>

text \<open>
  The notebook has no generation loop (\<^verbatim>\<open>LLAMA.generate_text\<close> is \<^verbatim>\<open>pass\<close>). A decoding
  session is the caller's protocol of the specification: one call on the first \<open>T\<close>
  tokens at position 0, then one call per further token, each at the position of its
  token, on the module as the previous call left it. \<^verbatim>\<open>tokens[:, lo:hi]\<close> is a slice of the
  columns.
\<close>

definition getitem_cols :: "'a tensor2 \<Rightarrow> nat \<Rightarrow> nat \<Rightarrow> 'a tensor2" where
  "getitem_cols t lo hi =
     \<lparr> rows2 = rows2 t, cols2 = slice_len (cols2 t) lo hi,
       at2 = (\<lambda>i j. at2 t i (slice_lo (cols2 t) lo + j)) \<rparr>"

fun decode_steps ::
  "Transformer \<Rightarrow> nat tensor2 \<Rightarrow> nat \<Rightarrow> nat \<Rightarrow> (error + real tensor3) list \<times> Transformer" where
  "decode_steps self tokens pos 0 = ([], self)"
| "decode_steps self tokens pos (Suc n) =
     (case Transformer_forward self (getitem_cols tokens pos (pos + 1)) pos of
        (r, self') \<Rightarrow>
          (case decode_steps self' tokens (pos + 1) n of
             (rs, self'') \<Rightarrow> (r # rs, self'')))"

definition incremental ::
  "Transformer \<Rightarrow> nat tensor2 \<Rightarrow> nat \<Rightarrow> (error + real tensor3) \<times> (error + real tensor3) list" where
  "incremental self tokens T =
     (case Transformer_forward self (getitem_cols tokens 0 T) 0 of
        (r, self') \<Rightarrow> (r, fst (decode_steps self' tokens T (cols2 tokens - T))))"

section \<open>What a forward pass computes at one position\<close>

text \<open>
  The value of a forward pass at one position of one sequence, written on vectors and
  on streams \<open>X p c\<close> (position, channel) instead of tensors. A linear layer and the
  two norms act on the vector of a position; the rotary encoding rotates the pairs of a
  vector by the factors \<open>z\<close> of its position.
\<close>

definition lin_vec :: "(nat \<Rightarrow> nat \<Rightarrow> real) \<Rightarrow> nat \<Rightarrow> (nat \<Rightarrow> real) \<Rightarrow> nat \<Rightarrow> real" where
  "lin_vec W n u c = (\<Sum>i<n. u i * W c i)"

definition rms_vec :: "RMSNorm \<Rightarrow> nat \<Rightarrow> (nat \<Rightarrow> real) \<Rightarrow> nat \<Rightarrow> real" where
  "rms_vec nm n u c =
     (u c * (1 / sqrt ((\<Sum>i<n. (u i)\<^sup>2) / real n + rms_eps nm))) * rms_w nm c"

definition ffn_vec :: "FFN \<Rightarrow> nat \<Rightarrow> (nat \<Rightarrow> real) \<Rightarrow> nat \<Rightarrow> real" where
  "ffn_vec f n u c =
     lin_vec (w2 f) (hidden_dim f) (\<lambda>h. silu (lin_vec (w1 f) n u h) * lin_vec (w3 f) n u h) c"

definition rot_vec :: "(nat \<Rightarrow> real) \<Rightarrow> (nat \<Rightarrow> complex) \<Rightarrow> nat \<Rightarrow> real" where
  "rot_vec u z d =
     (if d mod 2 = 0
      then Re (Complex (u (2 * (d div 2))) (u (2 * (d div 2) + 1)) * z (d div 2))
      else Im (Complex (u (2 * (d div 2))) (u (2 * (d div 2) + 1)) * z (d div 2)))"

text \<open>
  Attention at position \<open>p\<close>, as the code computes it: the query head \<open>h\<close> reads the
  key/value head \<open>kv_head h\<close>; the scores are the products of the rotated query with the
  \<^emph>\<open>values\<close> of the positions up to \<open>p\<close>, times \<open>sqrt h_size\<close>; the weights are their
  softmax over these positions; the output is the projection of the weighted values.
\<close>

definition kv_head :: "SelfAttention \<Rightarrow> nat \<Rightarrow> nat" where
  "kv_head self h = (if n_rep self = 1 then h else h div n_rep self)"

definition attend_score ::
  "SelfAttention \<Rightarrow> (nat \<Rightarrow> nat \<Rightarrow> real) \<Rightarrow> (nat \<Rightarrow> nat \<Rightarrow> nat \<Rightarrow> real) \<Rightarrow> nat \<Rightarrow> nat \<Rightarrow> real" where
  "attend_score self Q V h j =
     (\<Sum>d<h_size self. Q h d * V j (kv_head self h) d) * sqrt (real (h_size self))"

definition attend_ctx ::
  "SelfAttention \<Rightarrow> (nat \<Rightarrow> nat \<Rightarrow> real) \<Rightarrow> (nat \<Rightarrow> nat \<Rightarrow> nat \<Rightarrow> real) \<Rightarrow> nat \<Rightarrow> nat \<Rightarrow> nat \<Rightarrow> real" where
  "attend_ctx self Q V p h d =
     (\<Sum>j<p + 1. exp (attend_score self Q V h j) / (\<Sum>j'<p + 1. exp (attend_score self Q V h j'))
                 * V j (kv_head self h) d)"

definition attend_out ::
  "SelfAttention \<Rightarrow> (nat \<Rightarrow> nat \<Rightarrow> real) \<Rightarrow> (nat \<Rightarrow> nat \<Rightarrow> nat \<Rightarrow> real) \<Rightarrow> nat \<Rightarrow> nat \<Rightarrow> real" where
  "attend_out self Q V p c =
     lin_vec (wo self) (n_q_heads self * h_size self)
       (\<lambda>i. attend_ctx self Q V p (i div h_size self) (i mod h_size self)) c"

definition q_ref :: "SelfAttention \<Rightarrow> complex tensor2 \<Rightarrow> (nat \<Rightarrow> nat \<Rightarrow> real) \<Rightarrow> nat \<Rightarrow> nat \<Rightarrow> nat \<Rightarrow> real" where
  "q_ref self table X p h d =
     rot_vec (\<lambda>d'. lin_vec (wq self) (sa_dim self) (X p) (h * h_size self + d')) (at2 table p) d"

definition v_ref :: "SelfAttention \<Rightarrow> (nat \<Rightarrow> nat \<Rightarrow> real) \<Rightarrow> nat \<Rightarrow> nat \<Rightarrow> nat \<Rightarrow> real" where
  "v_ref self X p h d = lin_vec (wv self) (sa_dim self) (X p) (h * h_size self + d)"

definition attn_ref :: "SelfAttention \<Rightarrow> complex tensor2 \<Rightarrow> (nat \<Rightarrow> nat \<Rightarrow> real) \<Rightarrow> nat \<Rightarrow> nat \<Rightarrow> real" where
  "attn_ref self table X p c = attend_out self (q_ref self table X p) (v_ref self X) p c"

text \<open>A block, a stack of blocks and the model, on streams.\<close>

definition block_ref ::
  "TransformerBlock \<Rightarrow> complex tensor2 \<Rightarrow> (nat \<Rightarrow> nat \<Rightarrow> real) \<Rightarrow> nat \<Rightarrow> nat \<Rightarrow> real" where
  "block_ref blk table X p c =
     (let D = sa_dim (attention blk);
          x1 = (\<lambda>c. X p c + attn_ref (attention blk) table (\<lambda>p. rms_vec (attn_norm blk) D (X p)) p c)
      in x1 c + ffn_vec (ffn blk) D (rms_vec (ffn_norm blk) D x1) c)"

fun layers_ref ::
  "TransformerBlock list \<Rightarrow> complex tensor2 \<Rightarrow> (nat \<Rightarrow> nat \<Rightarrow> real) \<Rightarrow> nat \<Rightarrow> nat \<Rightarrow> real" where
  "layers_ref [] table X = X"
| "layers_ref (blk # ls) table X = layers_ref ls table (block_ref blk table X)"

definition emb_ref :: "Transformer \<Rightarrow> nat tensor2 \<Rightarrow> nat \<Rightarrow> nat \<Rightarrow> nat \<Rightarrow> real" where
  "emb_ref self tokens b p c = tok_embeddings self (at2 tokens b p) c"

definition logits_ref :: "Transformer \<Rightarrow> nat tensor2 \<Rightarrow> nat \<Rightarrow> nat \<Rightarrow> nat \<Rightarrow> real" where
  "logits_ref self tokens b p v =
     lin_vec (out self) (dim' (t_args self))
       (rms_vec (norm' self) (dim' (t_args self))
          (layers_ref (layers self) (freqs_table self) (emb_ref self tokens b) p)) v"

text \<open>
  The value cache of an attention holds the values of the stream \<open>X\<close> at the positions
  below \<open>n\<close>, for the batch rows below \<open>B\<close>; and so for every layer of a stack, each on
  the normalised stream it receives.
\<close>

definition cache_holds :: "SelfAttention \<Rightarrow> (nat \<Rightarrow> nat \<Rightarrow> nat \<Rightarrow> real) \<Rightarrow> nat \<Rightarrow> nat \<Rightarrow> bool" where
  "cache_holds self X B n \<longleftrightarrow>
     (\<forall>b<B. \<forall>j<n. \<forall>h<sa_n_kv_heads self. \<forall>d<h_size self.
        at4 (v_cache self) b j h d = v_ref self (X b) j h d)"

fun caches_hold ::
  "TransformerBlock list \<Rightarrow> complex tensor2 \<Rightarrow> (nat \<Rightarrow> nat \<Rightarrow> nat \<Rightarrow> real) \<Rightarrow> nat \<Rightarrow> nat \<Rightarrow> bool" where
  "caches_hold [] table X B n = True"
| "caches_hold (blk # ls) table X B n =
     (cache_holds (attention blk)
        (\<lambda>b p. rms_vec (attn_norm blk) (sa_dim (attention blk)) (X b p)) B n
      \<and> caches_hold ls table (\<lambda>b. block_ref blk table (X b)) B n)"

section \<open>The contract of a layer call\<close>

text \<open>
  The specification's contract of the attention inside a layer, position by position
  (its sections 4.3, steps 2, 3, 6 and 7, and 4.5). The rotary encoding is applied to
  the queries and the keys with the rotation factors of their positions, before the keys
  are cached; the mask is added to the scaled scores before the softmax over the keys, so
  that the softmax gives a masked key the weight 0.

  \<open>mask_value m t j\<close> is what the mask adds to the score of the query \<open>t\<close> of the call
  with the key at position \<open>j\<close>: nothing when the mask is absent.
\<close>

definition mask_value :: "fval tensor2 option \<Rightarrow> nat \<Rightarrow> nat \<Rightarrow> fval" where
  "mask_value m t j = (case m of None \<Rightarrow> Fin 0 | Some m \<Rightarrow> at2 m t j)"

text \<open>The softmax over \<open>n\<close> keys of the scores \<open>s\<close> with the mask row \<open>m\<close> added.\<close>

definition masked_softmax :: "(nat \<Rightarrow> real) \<Rightarrow> (nat \<Rightarrow> fval) \<Rightarrow> nat \<Rightarrow> nat \<Rightarrow> real" where
  "masked_softmax s m n j =
     exp_fval (add_fval (s j) (m j)) / (\<Sum>j'<n. exp_fval (add_fval (s j') (m j')))"

text \<open>
  Steps 5 to 7 for one query position: \<open>Q\<close> are the rotated queries of the position, one
  per query head, \<open>K\<close> and \<open>V\<close> the cached rows read for the keys and for the values, one
  per position and key/value head, \<open>m\<close> the mask row of the query and \<open>n\<close> the number of
  keys. The query head \<open>h\<close> reads the key/value head \<open>kv_head h\<close>; the scores are scaled as
  the code scales them, by the factor \<open>sqrt h_size\<close>.
\<close>

definition contract_attention ::
  "SelfAttention \<Rightarrow> (nat \<Rightarrow> nat \<Rightarrow> real) \<Rightarrow> (nat \<Rightarrow> nat \<Rightarrow> nat \<Rightarrow> real) \<Rightarrow> (nat \<Rightarrow> nat \<Rightarrow> nat \<Rightarrow> real)
     \<Rightarrow> (nat \<Rightarrow> fval) \<Rightarrow> nat \<Rightarrow> nat \<Rightarrow> real" where
  "contract_attention self Q K V m n c =
     lin_vec (wo self) (n_q_heads self * h_size self)
       (\<lambda>i. \<Sum>j<n. masked_softmax
                      (\<lambda>j. (\<Sum>d<h_size self. Q (i div h_size self) d * K j (kv_head self (i div h_size self)) d)
                            * sqrt (real (h_size self))) m n j
                    * V j (kv_head self (i div h_size self)) (i mod h_size self)) c"

text \<open>
  Step 2: the projection by \<open>W\<close> of the vector \<open>u\<close>, head \<open>h\<close>, rotated by the rotation
  factors \<open>z\<close> of its position.
\<close>

definition rotated ::
  "(nat \<Rightarrow> nat \<Rightarrow> real) \<Rightarrow> nat \<Rightarrow> nat \<Rightarrow> (nat \<Rightarrow> real) \<Rightarrow> (nat \<Rightarrow> complex) \<Rightarrow> nat \<Rightarrow> nat \<Rightarrow> real" where
  "rotated W n hs u z h d = rot_vec (\<lambda>d'. lin_vec W n u (h * hs + d')) z d"

text \<open>
  A layer follows the contract on a call, from its input \<open>x\<close> to its output \<open>y\<close> and from
  the layer \<open>blk\<close> before the call to the layer \<open>blk'\<close> after it, when
  \<^item> the key cache holds, at the position \<open>start_pos + t\<close> of every new token \<open>t\<close>, the key
    projection of the normalised input rotated by the row \<open>start_pos + t\<close> of the table of
    rotation factors, and the value cache its value projection;
  \<^item> the output is \<open>x1 + FFN (RMSNorm x1)\<close> with \<open>x1 = x + a\<close>, where \<open>a\<close> is the attention of
    the queries rotated by the same rows of the table, over the \<open>start_pos + T\<close> cached
    positions, with the mask \<open>m\<close> added to the scores before the softmax.

  Keys and values of the attention are both the rows of the value cache after the call:
  this is the tensor that \<^verbatim>\<open>forward\<close> reads for either (see the section on the keys of the
  scores). The contract fixes where the rotation factors and the mask go.
\<close>

definition layer_follows_contract ::
  "TransformerBlock \<Rightarrow> TransformerBlock \<Rightarrow> real tensor3 \<Rightarrow> real tensor3 \<Rightarrow> nat \<Rightarrow> complex tensor2
     \<Rightarrow> fval tensor2 option \<Rightarrow> bool" where
  "layer_follows_contract blk blk' x y start_pos table m \<longleftrightarrow>
     (let att = attention blk; att' = attention blk';
          B = len3_0 x; T = len3_1 x; D = len3_2 x; hs = h_size att;
          xn = (\<lambda>b t. rms_vec (attn_norm blk) D (at3 x b t));
          q = (\<lambda>b t. rotated (wq att) D hs (xn b t) (at2 table (start_pos + t)));
          k = (\<lambda>b t. rotated (wk att) D hs (xn b t) (at2 table (start_pos + t)));
          v = (\<lambda>b t h d. lin_vec (wv att) D (xn b t) (h * hs + d));
          a = (\<lambda>b t. contract_attention att (q b t)
                        (\<lambda>j. at4 (v_cache att') b j) (\<lambda>j. at4 (v_cache att') b j)
                        (mask_value m t) (start_pos + T));
          x1 = (\<lambda>b t c. at3 x b t c + a b t c)
      in (\<forall>b<B. \<forall>t<T. \<forall>h<sa_n_kv_heads att. \<forall>d<hs.
            at4 (k_cache att') b (start_pos + t) h d = k b t h d
            \<and> at4 (v_cache att') b (start_pos + t) h d = v b t h d)
         \<and> len3_0 y = B \<and> len3_1 y = T \<and> len3_2 y = D
         \<and> (\<forall>b<B. \<forall>t<T. \<forall>c<D.
               at3 y b t c = x1 b t c + ffn_vec (ffn blk) D (rms_vec (ffn_norm blk) D (x1 b t)) c))"

text \<open>
  A stack of layers follows the contract along the activations \<open>xs\<close>: the input of the
  first layer, then the output of every layer, which is the input of the next.
\<close>

fun layers_follow_contract ::
  "TransformerBlock list \<Rightarrow> TransformerBlock list \<Rightarrow> real tensor3 list \<Rightarrow> nat \<Rightarrow> complex tensor2
     \<Rightarrow> fval tensor2 option \<Rightarrow> bool" where
  "layers_follow_contract (blk # ls) (blk' # ls') (x # y # xs) start_pos table m =
     (layer_follows_contract blk blk' x y start_pos table m
      \<and> layers_follow_contract ls ls' (y # xs) start_pos table m)"
| "layers_follow_contract [] [] [x] start_pos table m = True"
| "layers_follow_contract _ _ _ start_pos table m = False"

section \<open>Well-formed calls and modules\<close>

text \<open>
  A call inside the capacity of the caches: as \<open>call_ok\<close>, with
  \<open>start_pos + T \<le> seq_len\<close> and without a condition on the mask.
\<close>

definition chunk_ok :: "SelfAttention \<Rightarrow> real tensor3 \<Rightarrow> nat \<Rightarrow> complex tensor2 \<Rightarrow> bool" where
  "chunk_ok self x sp fr \<longleftrightarrow>
     len3_2 x = sa_dim self \<and> sa_dim self = n_q_heads self * h_size self
     \<and> 0 < len3_0 x \<and> 0 < len3_1 x \<and> 0 < n_q_heads self \<and> 0 < sa_n_kv_heads self
     \<and> h_size self mod 2 = 0
     \<and> n_q_heads self = sa_n_kv_heads self * n_rep self
     \<and> rows2 fr = len3_1 x \<and> cols2 fr = h_size self div 2
     \<and> len3_0 x \<le> len4_0 (k_cache self) \<and> sp + len3_1 x \<le> len4_1 (k_cache self)
     \<and> len4_2 (k_cache self) = sa_n_kv_heads self \<and> len4_3 (k_cache self) = h_size self
     \<and> len3_0 x \<le> len4_0 (v_cache self) \<and> sp + len3_1 x \<le> len4_1 (v_cache self)
     \<and> len4_2 (v_cache self) = sa_n_kv_heads self \<and> len4_3 (v_cache self) = h_size self"

text \<open>
  What \<^verbatim>\<open>__init__\<close> establishes for a block and for the model, and every call keeps. The
  configuration must split the model dimension evenly over the heads, into heads of even
  size (the assertions of \<^verbatim>\<open>forward\<close> and of \<^verbatim>\<open>precomputed_freqs\<close>).
\<close>

definition layer_ok :: "Args \<Rightarrow> TransformerBlock \<Rightarrow> bool" where
  "layer_ok args blk \<longleftrightarrow>
     SelfAttention_of args (attention blk) \<and> rms_dim (attn_norm blk) = dim' args
     \<and> rms_dim (ffn_norm blk) = dim' args \<and> ffn_dim (ffn blk) = dim' args"

definition config_ok :: "Args \<Rightarrow> bool" where
  "config_ok args \<longleftrightarrow>
     dim' args = n_heads args * (dim' args div n_heads args)
     \<and> (dim' args div n_heads args) mod 2 = 0"

definition Transformer_of :: "Args \<Rightarrow> Transformer \<Rightarrow> bool" where
  "Transformer_of args self \<longleftrightarrow>
     t_args self = args \<and> list_all (layer_ok args) (layers self)
     \<and> rms_dim (norm' self) = dim' args
     \<and> rows2 (freqs_table self) = seq_len args * 2
     \<and> cols2 (freqs_table self) = (dim' args div n_heads args) div 2"

section \<open>Modules with other cache contents, and a small model\<close>

text \<open>
  The caches are allocated with \<^verbatim>\<open>torch.empty\<close> and keep what earlier calls wrote: a module
  may hold anything in them. \<open>with_cache_contents self cs\<close> is the module \<open>self\<close> with
  other contents in the caches of its layers, one pair (keys, values) of \<open>cs\<close> per layer,
  in order; shapes and weights stay, and so do the layers beyond the length of \<open>cs\<close>.
\<close>

definition refill ::
  "TransformerBlock \<Rightarrow> (nat \<Rightarrow> nat \<Rightarrow> nat \<Rightarrow> nat \<Rightarrow> real) \<Rightarrow> (nat \<Rightarrow> nat \<Rightarrow> nat \<Rightarrow> nat \<Rightarrow> real)
     \<Rightarrow> TransformerBlock" where
  "refill blk kc vc =
     blk \<lparr> attention := (attention blk)
             \<lparr> k_cache := (k_cache (attention blk)) \<lparr> at4 := kc \<rparr>,
               v_cache := (v_cache (attention blk)) \<lparr> at4 := vc \<rparr> \<rparr> \<rparr>"

fun refill_layers ::
  "TransformerBlock list
     \<Rightarrow> ((nat \<Rightarrow> nat \<Rightarrow> nat \<Rightarrow> nat \<Rightarrow> real) \<times> (nat \<Rightarrow> nat \<Rightarrow> nat \<Rightarrow> nat \<Rightarrow> real)) list
     \<Rightarrow> TransformerBlock list" where
  "refill_layers (blk # ls) ((kc, vc) # cs) = refill blk kc vc # refill_layers ls cs"
| "refill_layers ls cs = ls"

definition with_cache_contents ::
  "Transformer
     \<Rightarrow> ((nat \<Rightarrow> nat \<Rightarrow> nat \<Rightarrow> nat \<Rightarrow> real) \<times> (nat \<Rightarrow> nat \<Rightarrow> nat \<Rightarrow> nat \<Rightarrow> real)) list
     \<Rightarrow> Transformer" where
  "with_cache_contents self cs = self \<lparr> layers := refill_layers (layers self) cs \<rparr>"

text \<open>
  A model of one layer with identity projections, as \<^verbatim>\<open>__init__\<close> builds it for a
  capacity of three positions, with caches that are not zero; three tokens; and other
  contents for its caches.
\<close>

definition ex_model_args :: Args where
  "ex_model_args = \<lparr> dim' = 2, n_layers = 1, n_heads = 1, n_kv_heads = None, vocab_size = 2,
       multiple_of = 1, ffn_dim_multiplier = None, norm_eps = 1 / 10 ^ 5,
       batch_size = 1, seq_len = 3 \<rparr>"

definition ex_weights :: BlockWeights where
  "ex_weights = \<lparr> bw_wq = ex_id, bw_wk = ex_id, bw_wv = ex_id, bw_wo = ex_id,
       bw_attn_norm = (\<lambda>c. 1), bw_w1 = ex_id, bw_w2 = ex_id, bw_w3 = ex_id,
       bw_ffn_norm = (\<lambda>c. 1),
       bw_k_empty = (\<lambda>b t h d. 7), bw_v_empty = (\<lambda>b t h d. 3 + real t) \<rparr>"

definition ex_block :: TransformerBlock where
  "ex_block = \<lparr> attention =
         \<lparr> sa_dim = 2, n_q_heads = 1, sa_n_kv_heads = 1, n_rep = 1, h_size = 2,
           wq = ex_id, wk = ex_id, wv = ex_id, wo = ex_id,
           k_cache = \<lparr> len4_0 = 1, len4_1 = 3, len4_2 = 1, len4_3 = 2, at4 = (\<lambda>b t h d. 7) \<rparr>,
           v_cache = \<lparr> len4_0 = 1, len4_1 = 3, len4_2 = 1, len4_3 = 2,
                       at4 = (\<lambda>b t h d. 3 + real t) \<rparr> \<rparr>,
       attn_norm = \<lparr> rms_dim = 2, rms_w = (\<lambda>c. 1), rms_eps = 1 / 10 ^ 6 \<rparr>,
       ffn = \<lparr> ffn_dim = 2, hidden_dim = 5, w1 = ex_id, w2 = ex_id, w3 = ex_id \<rparr>,
       ffn_norm = \<lparr> rms_dim = 2, rms_w = (\<lambda>c. 1), rms_eps = 1 / 10 ^ 6 \<rparr> \<rparr>"

definition ex_model :: Transformer where
  "ex_model = \<lparr> t_args = ex_model_args, tok_embeddings = ex_id, layers = [ex_block],
       norm' = \<lparr> rms_dim = 2, rms_w = (\<lambda>c. 1), rms_eps = 1 / 10 ^ 5 \<rparr>,
       out = ex_id,
       freqs_table = \<lparr> rows2 = 6, cols2 = 1,
         at2 = (\<lambda>m i. cis (real m * (1 / (10000 powr (real (2 * i) / real 2))))) \<rparr> \<rparr>"

definition ex_tokens :: "nat tensor2" where
  "ex_tokens = \<lparr> rows2 = 1, cols2 = 3, at2 = (\<lambda>b t. t mod 2) \<rparr>"

definition ex_stale ::
  "((nat \<Rightarrow> nat \<Rightarrow> nat \<Rightarrow> nat \<Rightarrow> real) \<times> (nat \<Rightarrow> nat \<Rightarrow> nat \<Rightarrow> nat \<Rightarrow> real)) list" where
  "ex_stale = [((\<lambda>b t h d. - 1), (\<lambda>b t h d. 5 * real (t + d) - 2))]"

section \<open>Properties of the feed-forward hidden dimension\<close>

lemma round_up_multiple:
  fixes h m :: int
  assumes "0 < m"
  shows "m dvd m * ((h + m - 1) div m)"
    and "h \<le> m * ((h + m - 1) div m)"
    and "m * ((h + m - 1) div m) < h + m"
proof -
  let ?s = "h + m - 1"
  have eq: "m * (?s div m) = ?s - ?s mod m"
    by (simp add: minus_mod_eq_mult_div [symmetric])
  have lo: "0 \<le> ?s mod m" and hi: "?s mod m < m"
    using assms by simp_all
  show "m dvd m * (?s div m)" by simp
  show "h \<le> m * (?s div m)" using eq hi by linarith
  show "m * (?s div m) < h + m" using eq lo by linarith
qed

text \<open>
  C7. The hidden dimension starts from \<open>int(2 * (4 * dim) / 3)\<close>, that is \<open>8 * dim div 3\<close>,
  is multiplied by \<open>ffn_dim_multiplier\<close> when one is given, and is then rounded up to the
  nearest multiple of \<open>multiple_of\<close>: the result \<open>r\<close> is a multiple of \<open>multiple_of\<close> with
  \<open>h \<le> r < h + multiple_of\<close> for the scaled value \<open>h\<close>. For \<open>dim = 4096\<close>,
  \<open>multiple_of = 256\<close> and no multiplier it is 11008. (The bound on \<open>dim\<close> keeps
  \<open>2 * (4 * dim)\<close> below \<open>2^53\<close>, where the float quotient truncates exactly.)
\<close>

theorem FFN_hidden_dim_rounds_up:
  "(0 \<le> d \<and> d < 2 ^ 50 \<and> 0 < m_of \<longrightarrow>
      (case FFN_hidden_dim d m_of mult of
         Inl e \<Rightarrow> False
       | Inr r \<Rightarrow>
           m_of dvd r
           \<and> (case mult of None \<Rightarrow> 8 * d div 3 | Some m \<Rightarrow> m * (8 * d div 3)) \<le> r
           \<and> r < (case mult of None \<Rightarrow> 8 * d div 3 | Some m \<Rightarrow> m * (8 * d div 3))
                 + m_of))
   \<and> FFN_hidden_dim 4096 256 None = Inr 11008"
proof (intro conjI impI)
  assume a: "0 \<le> d \<and> d < 2 ^ 50 \<and> 0 < m_of"
  define h0 where "h0 = 8 * d div 3"
  define h where "h = (case mult of None \<Rightarrow> h0 | Some m \<Rightarrow> m * h0)"
  have t: "py_int_truediv (2 * (4 * d)) 3 = Inr h0"
  proof (cases "d = 0")
    case True
    then show ?thesis by (simp add: py_int_truediv_def h0_def)
  next
    case False
    with a have "0 < d" by simp
    then show ?thesis by (simp add: py_int_truediv_def h0_def)
  qed
  have f: "FFN_hidden_dim d m_of mult
             = Inr (m_of * ((h + m_of - 1) div m_of))"
    using a t by (simp add: FFN_hidden_dim_def py_floordiv_def h_def Let_def split: option.splits)
  show "case FFN_hidden_dim d m_of mult of
          Inl e \<Rightarrow> False
        | Inr r \<Rightarrow>
            m_of dvd r
            \<and> (case mult of None \<Rightarrow> 8 * d div 3 | Some m \<Rightarrow> m * (8 * d div 3)) \<le> r
            \<and> r < (case mult of None \<Rightarrow> 8 * d div 3 | Some m \<Rightarrow> m * (8 * d div 3))
                  + m_of"
  proof -
    have hh: "(case mult of None \<Rightarrow> 8 * d div 3 | Some m \<Rightarrow> m * (8 * d div 3)) = h"
      by (simp add: h_def h0_def split: option.splits)
    from a have "0 < m_of" by simp
    from round_up_multiple [OF this, of h] show ?thesis
      unfolding f hh by simp
  qed
next
  show "FFN_hidden_dim 4096 256 None = Inr 11008"
    by (simp add: FFN_hidden_dim_def py_int_truediv_def py_floordiv_def)
qed

theorem FFN_hidden_dim_rounds_up_witness:
  "(0::int) \<le> 4096 \<and> (4096::int) < 2 ^ 50 \<and> (0::int) < 256
   \<and> FFN_hidden_dim 4096 256 (Some 2) = Inr 22016
   \<and> (256::int) dvd 22016 \<and> (2::int) * (8 * 4096 div 3) \<le> 22016
   \<and> (22016::int) < 2 * (8 * 4096 div 3) + 256"
  using FFN_hidden_dim_rounds_up [of 4096 256 "Some 2"]
  by (simp add: FFN_hidden_dim_def py_int_truediv_def py_floordiv_def)

section \<open>The causal mask\<close>

text \<open>
  C5. In a forward call with \<open>T > 1\<close> the mask handed to the layers has shape
  \<open>(T, start_pos + T)\<close>, is zero in its first \<open>start_pos\<close> columns, and in the block of
  the \<open>T\<close> new tokens is zero on and below the diagonal and minus infinity strictly
  above it. With \<open>T = 1\<close> there is no mask.
\<close>

theorem causal_mask_layout:
  "(1 < T \<longrightarrow>
      (case causal_mask T start_pos of
         None \<Rightarrow> False
       | Some m \<Rightarrow>
           rows2 m = T \<and> cols2 m = start_pos + T
           \<and> (\<forall>i<T. \<forall>j<start_pos. at2 m i j = Fin 0)
           \<and> (\<forall>i<T. \<forall>j<T. at2 m i (start_pos + j) = (if j \<le> i then Fin 0 else NegInf))))
   \<and> causal_mask 1 start_pos = None"
  by (auto simp: causal_mask_def hstack_zeros_def triu1_def full_neg_inf_def)

theorem causal_mask_layout_witness:
  "(1::nat) < 2
   \<and> (case causal_mask 2 1 of
         None \<Rightarrow> False
       | Some m \<Rightarrow>
           rows2 m = 2 \<and> cols2 m = 3
           \<and> at2 m 0 0 = Fin 0 \<and> at2 m 1 0 = Fin 0
           \<and> at2 m 0 1 = Fin 0 \<and> at2 m 0 2 = NegInf
           \<and> at2 m 1 1 = Fin 0 \<and> at2 m 1 2 = Fin 0)"
  using causal_mask_layout [of 2 1]
  by (simp add: causal_mask_def hstack_zeros_def triu1_def full_neg_inf_def)

section \<open>Shapes, cache writes and the frame of a call\<close>

lemma SelfAttention_init_of:
  "SelfAttention_init args Wq Wk Wv Wo ke ve = Inr self \<Longrightarrow> SelfAttention_of args self"
  by (auto simp: SelfAttention_init_def SelfAttention_of_def Let_def split: if_splits option.splits)

lemma rope_shape:
  assumes "rope x fr = Inr y"
  shows "len4_0 y = len4_0 x \<and> len4_1 y = len4_1 x \<and> len4_2 y = len4_2 x \<and> len4_3 y = len4_3 x
    \<and> 0 < len4_0 x \<and> 0 < len4_1 x \<and> 0 < len4_2 x"
  using assms
  by (auto simp: rope_def Let_def split: if_splits option.splits prod.splits)

lemma project_qkv_shape:
  assumes "project_qkv self x fr = Inr (q, k, v)"
  shows "len4_0 q = len3_0 x \<and> len4_1 q = len3_1 x \<and> len4_2 q = n_q_heads self \<and> len4_3 q = h_size self
    \<and> len4_0 k = len3_0 x \<and> len4_1 k = len3_1 x \<and> len4_2 k = sa_n_kv_heads self \<and> len4_3 k = h_size self
    \<and> len4_0 v = len3_0 x \<and> len4_1 v = len3_1 x \<and> len4_2 v = sa_n_kv_heads self \<and> len4_3 v = h_size self
    \<and> 0 < len3_0 x \<and> 0 < len3_1 x"
proof -
  let ?q = "view_heads (LazyLinear (wq self) (n_q_heads self * h_size self) x) (n_q_heads self) (h_size self)"
  let ?k = "view_heads (LazyLinear (wk self) (sa_n_kv_heads self * h_size self) x) (sa_n_kv_heads self) (h_size self)"
  from assms have rq: "rope ?q fr = Inr q" and rk: "rope ?k fr = Inr k"
    and v: "v = view_heads (LazyLinear (wv self) (sa_n_kv_heads self * h_size self) x) (sa_n_kv_heads self) (h_size self)"
    by (auto simp: project_qkv_def Let_def split: sum.splits)
  from rope_shape [OF rq] rope_shape [OF rk] v show ?thesis
    by (simp add: view_heads_def LazyLinear_def)
qed

lemma setitem_bt_frame:
  assumes "setitem_bt c B lo hi src = Inr c'"
  shows "len4_0 c' = len4_0 c" "len4_1 c' = len4_1 c" "len4_2 c' = len4_2 c" "len4_3 c' = len4_3 c"
    and "\<not> (b < B \<and> lo \<le> t \<and> t < hi) \<Longrightarrow> at4 c' b t h d = at4 c b t h d"
  using assms
  by (auto simp: setitem_bt_def Let_def slice_len_def slice_lo_def split: if_splits)

lemma setitem_bt_overflow:
  assumes "setitem_bt c B lo (lo + T) src = Inr c'" "len4_1 c < lo + T" "len4_1 src = T" "0 < T"
  shows "T = 1 \<and> c' = c"
proof -
  have nt: "slice_len (len4_1 c) lo (lo + T) < T"
    using assms(2,4) by (auto simp: slice_len_def)
  from assms(1) have ex: "expands_to (len4_1 src) (slice_len (len4_1 c) lo (lo + T))"
    by (auto simp: setitem_bt_def Let_def split: if_splits)
  with nt assms(3) have T1: "T = 1" by (auto simp: expands_to_def)
  with nt have z: "slice_len (len4_1 c) lo (lo + T) = 0" by simp
  have "at4 c' = at4 c"
    using assms(1) by (auto simp: setitem_bt_def Let_def z fun_eq_iff split: if_splits)
  moreover have "len4_0 c' = len4_0 c" "len4_1 c' = len4_1 c" "len4_2 c' = len4_2 c"
    "len4_3 c' = len4_3 c" "tensor4.more c' = tensor4.more c"
    using assms(1) by (auto simp: setitem_bt_def Let_def split: if_splits)
  ultimately have "c' = c" by (intro tensor4.equality) simp_all
  with T1 show ?thesis by simp
qed

lemma write_kv_frame:
  assumes "write_kv self B sp T k v = (r, self')"
  shows "\<not> (b < B \<and> sp \<le> t \<and> t < sp + T) \<Longrightarrow>
      at4 (k_cache self') b t h d = at4 (k_cache self) b t h d
    \<and> at4 (v_cache self') b t h d = at4 (v_cache self) b t h d"
  using assms
  by (auto simp: write_kv_def Let_def split: sum.splits dest: setitem_bt_frame(5))

lemma write_kv_fields:
  assumes "write_kv self B sp T k v = (r, self')"
  shows "self' = self \<lparr> k_cache := k_cache self', v_cache := v_cache self' \<rparr>
    \<and> len4_0 (k_cache self') = len4_0 (k_cache self) \<and> len4_1 (k_cache self') = len4_1 (k_cache self)
    \<and> len4_2 (k_cache self') = len4_2 (k_cache self) \<and> len4_3 (k_cache self') = len4_3 (k_cache self)
    \<and> len4_0 (v_cache self') = len4_0 (v_cache self) \<and> len4_1 (v_cache self') = len4_1 (v_cache self)
    \<and> len4_2 (v_cache self') = len4_2 (v_cache self) \<and> len4_3 (v_cache self') = len4_3 (v_cache self)"
  using assms
  by (auto simp: write_kv_def Let_def split: sum.splits dest: setitem_bt_frame(1-4))

lemma write_kv_overflow:
  assumes w: "write_kv self B sp T k v = (r, self')"
    and o: "len4_1 (k_cache self) < sp + T" "len4_1 (v_cache self) < sp + T"
    and s: "len4_1 k = T" "len4_1 v = T" "0 < T"
  shows "self' = self \<and> (T \<noteq> 1 \<longrightarrow> r \<noteq> None)"
proof (cases "setitem_bt (k_cache self) B sp (sp + T) k")
  case (Inl e)
  with w show ?thesis by (auto simp: write_kv_def)
next
  case (Inr kc)
  from setitem_bt_overflow [OF Inr o(1) s(1) s(3)] have k: "T = 1" "kc = k_cache self" by simp_all
  show ?thesis
  proof (cases "setitem_bt (v_cache self) B sp (sp + T) v")
    case (Inl e)
    with w Inr k show ?thesis by (auto simp: write_kv_def)
  next
    case vc: (Inr vc)
    from setitem_bt_overflow [OF vc o(2) s(2) s(3)] have "vc = v_cache self" by simp
    with w Inr vc k show ?thesis by (auto simp: write_kv_def)
  qed
qed

text \<open>Where the module that a call returns comes from.\<close>

lemma forward_state:
  "snd (SelfAttention_forward self x sp fr mk) = self
   \<or> (\<exists>q k v. project_qkv self x fr = Inr (q, k, v)
        \<and> snd (SelfAttention_forward self x sp fr mk)
            = snd (write_kv self (len3_0 x) sp (len3_1 x) k v)
        \<and> (fst (write_kv self (len3_0 x) sp (len3_1 x) k v) \<noteq> None
             \<longrightarrow> isl (fst (SelfAttention_forward self x sp fr mk))))"
  by (auto simp: SelfAttention_forward_def Let_def split: sum.splits prod.splits option.splits)

lemma forward_frame:
  assumes "\<not> (b < len3_0 x \<and> sp \<le> t \<and> t < sp + len3_1 x)"
  shows "at4 (k_cache (snd (SelfAttention_forward self x sp fr mk))) b t h d = at4 (k_cache self) b t h d
    \<and> at4 (v_cache (snd (SelfAttention_forward self x sp fr mk))) b t h d = at4 (v_cache self) b t h d"
  using forward_state [of self x sp fr mk] write_kv_frame [OF surjective_pairing assms]
  by auto

lemma forward_of:
  assumes "SelfAttention_of args self"
  shows "SelfAttention_of args (snd (SelfAttention_forward self x sp fr mk))"
proof -
  from forward_state [of self x sp fr mk] show ?thesis
  proof
    assume "snd (SelfAttention_forward self x sp fr mk) = self"
    with assms show ?thesis by simp
  next
    assume "\<exists>q k v. project_qkv self x fr = Inr (q, k, v)
        \<and> snd (SelfAttention_forward self x sp fr mk)
            = snd (write_kv self (len3_0 x) sp (len3_1 x) k v)
        \<and> (fst (write_kv self (len3_0 x) sp (len3_1 x) k v) \<noteq> None
             \<longrightarrow> isl (fst (SelfAttention_forward self x sp fr mk)))"
    then obtain k v where s: "snd (SelfAttention_forward self x sp fr mk)
            = snd (write_kv self (len3_0 x) sp (len3_1 x) k v)" by blast
    from write_kv_fields [OF surjective_pairing, of self "len3_0 x" sp "len3_1 x" k v]
    have f: "snd (write_kv self (len3_0 x) sp (len3_1 x) k v) = self \<lparr> k_cache := k_cache (snd (write_kv self (len3_0 x) sp (len3_1 x) k v)), v_cache := v_cache (snd (write_kv self (len3_0 x) sp (len3_1 x) k v)) \<rparr>"
      and sh: "len4_0 (k_cache (snd (write_kv self (len3_0 x) sp (len3_1 x) k v))) = len4_0 (k_cache self) \<and> len4_1 (k_cache (snd (write_kv self (len3_0 x) sp (len3_1 x) k v))) = len4_1 (k_cache self)
    \<and> len4_2 (k_cache (snd (write_kv self (len3_0 x) sp (len3_1 x) k v))) = len4_2 (k_cache self) \<and> len4_3 (k_cache (snd (write_kv self (len3_0 x) sp (len3_1 x) k v))) = len4_3 (k_cache self)
    \<and> len4_0 (v_cache (snd (write_kv self (len3_0 x) sp (len3_1 x) k v))) = len4_0 (v_cache self) \<and> len4_1 (v_cache (snd (write_kv self (len3_0 x) sp (len3_1 x) k v))) = len4_1 (v_cache self)
    \<and> len4_2 (v_cache (snd (write_kv self (len3_0 x) sp (len3_1 x) k v))) = len4_2 (v_cache self) \<and> len4_3 (v_cache (snd (write_kv self (len3_0 x) sp (len3_1 x) k v))) = len4_3 (v_cache self)"
      by blast+
    show ?thesis
      unfolding s using assms sh
      by (subst f) (auto simp: SelfAttention_of_def)
  qed
qed

lemma rope_ok:
  assumes "0 < len4_0 x" "0 < len4_1 x" "0 < len4_2 x" "len4_3 x mod 2 = 0"
    "rows2 fr = len4_1 x" "cols2 fr = len4_3 x div 2"
  shows "\<exists>y. rope x fr = Inr y"
proof -
  from assms(4) have "len4_3 x div 2 * 2 = len4_3 x" by presburger
  with assms show ?thesis
    by (simp add: rope_def broadcast_dim_def Let_def)
qed

lemma project_qkv_ok:
  assumes "call_ok self x sp fr mk"
  shows "\<exists>q k v. project_qkv self x fr = Inr (q, k, v)"
proof -
  let ?q = "view_heads (LazyLinear (wq self) (n_q_heads self * h_size self) x) (n_q_heads self) (h_size self)"
  let ?k = "view_heads (LazyLinear (wk self) (sa_n_kv_heads self * h_size self) x) (sa_n_kv_heads self) (h_size self)"
  from assms obtain q where q: "rope ?q fr = Inr q"
    using rope_ok [of ?q fr] by (auto simp: call_ok_def view_heads_def LazyLinear_def)
  from assms obtain k where k: "rope ?k fr = Inr k"
    using rope_ok [of ?k fr] by (auto simp: call_ok_def view_heads_def LazyLinear_def)
  from q k show ?thesis by (simp add: project_qkv_def Let_def)
qed

lemma setitem_bt_ok:
  assumes "len4_0 src \<le> len4_0 c" "expands_to (len4_1 src) (slice_len (len4_1 c) lo hi)"
    "len4_2 src = len4_2 c" "len4_3 src = len4_3 c"
  shows "\<exists>c'. setitem_bt c (len4_0 src) lo hi src = Inr c'"
  using assms by (simp add: setitem_bt_def Let_def expands_to_def slice_len_def)

lemma write_kv_ok:
  assumes "call_ok self x sp fr mk" "project_qkv self x fr = Inr (q, k, v)"
  shows "fst (write_kv self (len3_0 x) sp (len3_1 x) k v) = None"
proof -
  note sh = project_qkv_shape [OF assms(2)]
  from assms(1) sh obtain kc where kc: "setitem_bt (k_cache self) (len3_0 x) sp (sp + len3_1 x) k = Inr kc"
    using setitem_bt_ok [of k "k_cache self" sp "sp + len3_1 x"] by (auto simp: call_ok_def)
  from assms(1) sh obtain vc where vc: "setitem_bt (v_cache self) (len3_0 x) sp (sp + len3_1 x) v = Inr vc"
    using setitem_bt_ok [of v "v_cache self" sp "sp + len3_1 x"] by (auto simp: call_ok_def)
  from kc vc show ?thesis by (simp add: write_kv_def)
qed

lemma read_kv_shape:
  "len4_0 (fst (read_kv self B hi)) = min B (len4_0 (v_cache self))"
  "len4_1 (fst (read_kv self B hi)) = min hi (len4_1 (v_cache self))"
  "len4_2 (fst (read_kv self B hi)) = (if n_rep self = 1 then len4_2 (v_cache self) else len4_2 (v_cache self) * n_rep self)"
  "len4_3 (fst (read_kv self B hi)) = len4_3 (v_cache self)"
  "len4_0 (snd (read_kv self B hi)) = min B (len4_0 (v_cache self))"
  "len4_1 (snd (read_kv self B hi)) = min hi (len4_1 (v_cache self))"
  "len4_2 (snd (read_kv self B hi)) = (if n_rep self = 1 then len4_2 (v_cache self) else len4_2 (v_cache self) * n_rep self)"
  "len4_3 (snd (read_kv self B hi)) = len4_3 (v_cache self)"
  by (simp_all add: read_kv_def Let_def getitem_bt_def rep_tensor_def slice_len_def)

lemma attn_weights_ok:
  assumes "len4_0 q = len4_0 k" "len4_1 q = len4_1 k" "len4_3 q = len4_3 k"
    "case mk of None \<Rightarrow> True | Some m \<Rightarrow> expands_to (rows2 m) (len4_2 q) \<and> expands_to (cols2 m) (len4_2 k)"
  shows "\<exists>a. attn_weights q k hs mk = Inr a \<and> len4_0 a = len4_0 q \<and> len4_1 a = len4_1 q
     \<and> len4_2 a = len4_2 q \<and> len4_3 a = len4_2 k"
  using assms
  by (auto simp: attn_weights_def matmul_def transpose23_def broadcast_dim_def scale_def
      add_mask_def softmax_def split: option.splits)

lemma attn_output_ok:
  assumes "len4_0 a = B" "len4_1 a = n_q_heads self" "len4_2 a = T" "len4_3 a = len4_2 v"
    "len4_0 v = B" "len4_1 v = n_q_heads self" "len4_3 v = h_size self"
  shows "\<exists>y. attn_output self a v B T = Inr y"
  using assms
  by (auto simp: attn_output_def matmul_def broadcast_dim_def transpose12_def view_merged_def)

lemma forward_succeeds:
  assumes ok: "call_ok self x sp fr mk"
  shows "\<not> isl (fst (SelfAttention_forward self x sp fr mk))"
proof -
  from project_qkv_ok [OF ok] obtain q k v where p: "project_qkv self x fr = Inr (q, k, v)" by blast
  note sh = project_qkv_shape [OF p]
  define self' where "self' = snd (write_kv self (len3_0 x) sp (len3_1 x) k v)"
  have w: "write_kv self (len3_0 x) sp (len3_1 x) k v = (None, self')"
    using write_kv_ok [OF ok p] by (simp add: self'_def prod_eq_iff)
  note wf = write_kv_fields [OF w]
  have f: "n_rep self' = n_rep self" "n_q_heads self' = n_q_heads self" "h_size self' = h_size self"
    by (subst conjunct1 [OF wf], simp)+
  define kk where "kk = transpose12 (fst (read_kv self' (len3_0 x) (sp + len3_1 x)))"
  define vv where "vv = transpose12 (snd (read_kv self' (len3_0 x) (sp + len3_1 x)))"
  have nh: "(if n_rep self = 1 then sa_n_kv_heads self else sa_n_kv_heads self * n_rep self) = n_q_heads self"
    using ok by (auto simp: call_ok_def)
  have ksh: "len4_0 kk = len3_0 x" "len4_1 kk = n_q_heads self" "len4_3 kk = h_size self"
    "len4_2 kk = min (sp + len3_1 x) (len4_1 (v_cache self))"
    using ok wf nh by (auto simp: kk_def transpose12_def read_kv_shape f call_ok_def)
  have vsh: "len4_0 vv = len3_0 x" "len4_1 vv = n_q_heads self" "len4_3 vv = h_size self"
    "len4_2 vv = min (sp + len3_1 x) (len4_1 (v_cache self))"
    using ok wf nh by (auto simp: vv_def transpose12_def read_kv_shape f call_ok_def)
  have "\<exists>a. attn_weights (transpose12 q) kk (h_size self') mk = Inr a \<and> len4_0 a = len4_0 (transpose12 q) \<and> len4_1 a = len4_1 (transpose12 q)
     \<and> len4_2 a = len4_2 (transpose12 q) \<and> len4_3 a = len4_2 kk"
    using ok sh ksh
    by (intro attn_weights_ok) (auto simp: transpose12_def call_ok_def slice_len_def split: option.splits)
  then obtain a where a: "attn_weights (transpose12 q) kk (h_size self') mk = Inr a"
    and ash: "len4_0 a = len3_0 x" "len4_1 a = n_q_heads self" "len4_2 a = len3_1 x" "len4_3 a = len4_2 kk"
    using sh by (auto simp: transpose12_def)
  have "\<exists>y. attn_output self' a vv (len3_0 x) (len3_1 x) = Inr y"
    using ash ksh vsh by (intro attn_output_ok) (simp_all add: f)
  then obtain y where y: "attn_output self' a vv (len3_0 x) (len3_1 x) = Inr y" by blast
  from ok have d: "len3_2 x = sa_dim self" "sa_dim self = n_q_heads self * h_size self"
    unfolding call_ok_def by linarith+
  have "SelfAttention_forward self x sp fr mk = (Inr y, self')"
    using p w a y d(2)
    by (simp add: SelfAttention_forward_def Let_def d(1) kk_def vv_def split_beta)
  then show ?thesis by simp
qed

lemma ex_attention_init:
  "SelfAttention_init ex_args ex_id ex_id (\<lambda>c i. 0) ex_id (\<lambda>b t h d. 0) (\<lambda>b t h d. 0)
     = Inr ex_attention"
  by (simp add: SelfAttention_init_def ex_args_def ex_attention_def)

lemma ex_table_precomputed: "precomputed_freqs 2 4 10000 = Inr ex_table"
  by (simp add: precomputed_freqs_def ex_table_def)

lemma ex_call_ok_0: "call_ok ex_attention ex_x 0 (getitem_rows ex_table 0 1) None"
  by (simp add: call_ok_def ex_attention_def ex_x_def ex_table_def getitem_rows_def
      slice_len_def expands_to_def)

lemma ex_call_ok_2: "call_ok ex_attention ex_x 2 (getitem_rows ex_table 2 3) None"
  by (simp add: call_ok_def ex_attention_def ex_x_def ex_table_def getitem_rows_def
      slice_len_def expands_to_def)

lemma forward_cases:
  "(isl (fst (SelfAttention_forward self x sp fr mk))
      \<and> snd (SelfAttention_forward self x sp fr mk) = self)
   \<or> (\<exists>q k v. project_qkv self x fr = Inr (q, k, v)
        \<and> snd (SelfAttention_forward self x sp fr mk)
            = snd (write_kv self (len3_0 x) sp (len3_1 x) k v)
        \<and> (fst (write_kv self (len3_0 x) sp (len3_1 x) k v) \<noteq> None
             \<longrightarrow> isl (fst (SelfAttention_forward self x sp fr mk))))"
  by (auto simp: SelfAttention_forward_def Let_def split: sum.splits prod.splits option.splits)

section \<open>Calls beyond the capacity of the cache\<close>

text \<open>
  C4, as the code has it. The notebook has no bound check and no overflow error: what
  happens beyond the capacity follows from the slice assignment. A call with
  \<open>start_pos + T > seq_len\<close> leaves the module, and so both caches, unchanged. It raises
  (a shape error of the tensor library, or an assertion) whenever \<open>T \<noteq> 1\<close>. With
  \<open>T = 1\<close> the slice is empty, the assignment writes nothing, and the call can return.
\<close>

theorem forward_beyond_capacity:
  assumes "SelfAttention_of args self" "seq_len args < start_pos + len3_1 x"
  shows "snd (SelfAttention_forward self x start_pos freqs mk) = self
    \<and> (len3_1 x \<noteq> 1 \<longrightarrow> isl (fst (SelfAttention_forward self x start_pos freqs mk)))"
proof -
  from forward_cases [of self x start_pos freqs mk] show ?thesis
  proof (elim disjE exE conjE)
    fix q k v
    assume p: "project_qkv self x freqs = Inr (q, k, v)"
      and s: "snd (SelfAttention_forward self x start_pos freqs mk)
            = snd (write_kv self (len3_0 x) start_pos (len3_1 x) k v)"
      and e: "fst (write_kv self (len3_0 x) start_pos (len3_1 x) k v) \<noteq> None
             \<longrightarrow> isl (fst (SelfAttention_forward self x start_pos freqs mk))"
    note sh = project_qkv_shape [OF p]
    from assms have o: "len4_1 (k_cache self) < start_pos + len3_1 x"
        "len4_1 (v_cache self) < start_pos + len3_1 x"
      by (simp_all add: SelfAttention_of_def)
    obtain r s' where w: "write_kv self (len3_0 x) start_pos (len3_1 x) k v = (r, s')"
      by (cases "write_kv self (len3_0 x) start_pos (len3_1 x) k v")
    from sh have kT: "len4_1 k = len3_1 x" and vT: "len4_1 v = len3_1 x" and T0: "0 < len3_1 x"
      by simp_all
    from write_kv_overflow [OF w o kT vT T0] w
    have "snd (write_kv self (len3_0 x) start_pos (len3_1 x) k v) = self
      \<and> (len3_1 x \<noteq> 1 \<longrightarrow> fst (write_kv self (len3_0 x) start_pos (len3_1 x) k v) \<noteq> None)"
      by simp
    with s e show ?thesis by simp
  qed simp
qed

theorem forward_beyond_capacity_witness:
  "SelfAttention_of ex_args ex_attention \<and> seq_len ex_args < 2 + len3_1 ex_x
   \<and> snd (SelfAttention_forward ex_attention ex_x 2 (getitem_rows ex_table 2 3) None) = ex_attention
   \<and> seq_len ex_args < 1 + len3_1 ex_x2 \<and> len3_1 ex_x2 \<noteq> 1
   \<and> snd (SelfAttention_forward ex_attention ex_x2 1 (getitem_rows ex_table 1 3) None) = ex_attention
   \<and> isl (fst (SelfAttention_forward ex_attention ex_x2 1 (getitem_rows ex_table 1 3) None))"
  using forward_beyond_capacity [of ex_args ex_attention 2 ex_x "getitem_rows ex_table 2 3" None]
    forward_beyond_capacity [of ex_args ex_attention 1 ex_x2 "getitem_rows ex_table 1 3" None]
    SelfAttention_init_of [OF ex_attention_init]
  by (simp add: ex_args_def ex_x_def ex_x2_def)

text \<open>
  The claim as stated fails for a single token at the first position past the cache:
  \<open>start_pos + T = 3 > 2 = seq_len\<close>, and the call returns an output.
\<close>

theorem forward_beyond_capacity_returns:
  "seq_len ex_args < 2 + len3_1 ex_x
   \<and> \<not> isl (fst (SelfAttention_forward ex_attention ex_x 2 (getitem_rows ex_table 2 3) None))"
  using forward_succeeds [OF ex_call_ok_2] by (simp add: ex_args_def ex_x_def)

section \<open>The frame of a call\<close>

text \<open>
  C10. A call that returns changes the key and value caches at most at the batch rows
  below \<open>B\<close> and the positions \<open>[start_pos, start_pos + T)\<close>; every other entry is as
  before. A call whose input has a last dimension other than \<open>dim\<close> raises at the first
  assertion and leaves the module unchanged.
\<close>

theorem SelfAttention_forward_cache_frame:
  "(\<not> isl (fst (SelfAttention_forward self x start_pos freqs mk)) \<longrightarrow>
      (\<forall>b t h d. \<not> (b < len3_0 x \<and> start_pos \<le> t \<and> t < start_pos + len3_1 x) \<longrightarrow>
         at4 (k_cache (snd (SelfAttention_forward self x start_pos freqs mk))) b t h d
           = at4 (k_cache self) b t h d
         \<and> at4 (v_cache (snd (SelfAttention_forward self x start_pos freqs mk))) b t h d
           = at4 (v_cache self) b t h d))
   \<and> (len3_2 x \<noteq> sa_dim self \<longrightarrow>
        SelfAttention_forward self x start_pos freqs mk = (Inl AssertionError, self))"
  using forward_frame [of _ x start_pos _ self freqs mk]
  by (auto simp: SelfAttention_forward_def)

theorem SelfAttention_forward_cache_frame_witness:
  "\<not> isl (fst (SelfAttention_forward ex_attention ex_x 0 (getitem_rows ex_table 0 1) None))
   \<and> at4 (k_cache (snd (SelfAttention_forward ex_attention ex_x 0 (getitem_rows ex_table 0 1) None))) 0 1 0 0
       = at4 (k_cache ex_attention) 0 1 0 0
   \<and> at4 (v_cache (snd (SelfAttention_forward ex_attention ex_x 0 (getitem_rows ex_table 0 1) None))) 0 1 0 0
       = at4 (v_cache ex_attention) 0 1 0 0
   \<and> len3_2 ex_x3 \<noteq> sa_dim ex_attention
   \<and> SelfAttention_forward ex_attention ex_x3 0 (getitem_rows ex_table 0 1) None
       = (Inl AssertionError, ex_attention)"
  using SelfAttention_forward_cache_frame [of ex_attention ex_x 0 "getitem_rows ex_table 0 1" None]
    SelfAttention_forward_cache_frame [of ex_attention ex_x3 0 "getitem_rows ex_table 0 1" None]
    forward_succeeds [OF ex_call_ok_0]
  by (simp add: ex_x_def ex_x3_def ex_attention_def)



section \<open>The keys of the scores\<close>

lemma rope_shape_only:
  assumes "same_shape4 x x'"
  shows "(rope x fr = Inl RuntimeError \<and> rope x' fr = Inl RuntimeError)
    \<or> (\<exists>y y'. rope x fr = Inr y \<and> rope x' fr = Inr y' \<and> same_shape4 y y')"
  using assms
  by (auto simp: rope_def same_shape4_def Let_def split: option.splits)

lemma setitem_bt_shape_only:
  assumes "same_shape4 src src'"
  shows "(setitem_bt c B lo hi src = Inl RuntimeError \<and> setitem_bt c B lo hi src' = Inl RuntimeError)
    \<or> (\<exists>c1 c2. setitem_bt c B lo hi src = Inr c1 \<and> setitem_bt c B lo hi src' = Inr c2)"
  using assms
  by (auto simp: setitem_bt_def same_shape4_def Let_def)

lemma project_qkv_wk:
  "(\<exists>e. project_qkv (self\<lparr>wk := W\<rparr>) x fr = Inl e \<and> project_qkv self x fr = Inl e)
   \<or> (\<exists>q k k2 v. project_qkv (self\<lparr>wk := W\<rparr>) x fr = Inr (q, k2, v)
         \<and> project_qkv self x fr = Inr (q, k, v) \<and> same_shape4 k2 k)"
proof -
  let ?k = "view_heads (LazyLinear (wk self) (sa_n_kv_heads self * h_size self) x) (sa_n_kv_heads self) (h_size self)"
  let ?k2 = "view_heads (LazyLinear W (sa_n_kv_heads self * h_size self) x) (sa_n_kv_heads self) (h_size self)"
  have "same_shape4 ?k2 ?k" by (simp add: same_shape4_def view_heads_def LazyLinear_def)
  from rope_shape_only [OF this, of fr] show ?thesis
    by (auto simp: project_qkv_def Let_def split: sum.splits)
qed

lemma write_kv_wk:
  assumes "same_shape4 k2 k"
  shows "fst (write_kv (self\<lparr>wk := W\<rparr>) B sp T k2 v) = fst (write_kv self B sp T k v)
    \<and> snd (write_kv (self\<lparr>wk := W\<rparr>) B sp T k2 v)
        = (snd (write_kv self B sp T k v))
            \<lparr> wk := W, k_cache := k_cache (snd (write_kv (self\<lparr>wk := W\<rparr>) B sp T k2 v)) \<rparr>"
  using setitem_bt_shape_only [OF assms, of "k_cache self" B sp "sp + T"]
  by (auto simp: write_kv_def Let_def split: sum.splits)

lemma read_kv_keys: "read_kv (self \<lparr> wk := W, k_cache := c \<rparr>) B hi = read_kv self B hi"
  by (simp add: read_kv_def)

lemma attn_output_keys:
  "attn_output (self \<lparr> wk := W, k_cache := c \<rparr>) a v B T = attn_output self a v B T"
  by (simp add: attn_output_def cong: sum.case_cong)

text \<open>
  C2. The scores are computed from \<^verbatim>\<open>k = self.v_cache[:B, :start_pos + T]\<close>: the cached
  values stand where the cached rotated keys should. The key cache is written and never
  read, so the output of the attention does not depend on the key projection at all,
  whereas the output of standard multi-head attention does. This holds for every
  \<open>n_rep\<close>, in particular for \<open>n_rep = 1\<close>.
\<close>

theorem attention_output_ignores_key_projection:
  "fst (SelfAttention_forward (self \<lparr> wk := W \<rparr>) x start_pos freqs mk)
     = fst (SelfAttention_forward self x start_pos freqs mk)"
proof -
  from project_qkv_wk [where self = self and W = W and x = x and fr = freqs] show ?thesis
  proof (elim disjE exE conjE)
    fix e assume "project_qkv (self\<lparr>wk := W\<rparr>) x freqs = Inl e" "project_qkv self x freqs = Inl e"
    then show ?thesis by (simp add: SelfAttention_forward_def Let_def)
  next
    fix q k k2 v
    assume p2: "project_qkv (self\<lparr>wk := W\<rparr>) x freqs = Inr (q, k2, v)"
      and p: "project_qkv self x freqs = Inr (q, k, v)" and sh: "same_shape4 k2 k"
    obtain r S where w: "write_kv self (len3_0 x) start_pos (len3_1 x) k v = (r, S)"
      by (cases "write_kv self (len3_0 x) start_pos (len3_1 x) k v")
    from write_kv_wk [OF sh, where self = self and W = W and B = "len3_0 x" and sp = start_pos
        and T = "len3_1 x" and v = v] w
    obtain c where w2: "write_kv (self\<lparr>wk := W\<rparr>) (len3_0 x) start_pos (len3_1 x) k2 v
        = (r, S \<lparr> wk := W, k_cache := c \<rparr>)"
      by (auto simp: prod_eq_iff)
    show ?thesis
      using p p2 w w2
      by (simp add: SelfAttention_forward_def Let_def read_kv_keys attn_output_keys split_beta
          split: option.splits sum.splits)
  qed
qed

lemma snd_forward:
  "project_qkv self x fr = Inr (q, k, v) \<Longrightarrow>
     snd (SelfAttention_forward self x sp fr mk)
       = (if len3_2 x \<noteq> sa_dim self \<or> len3_2 x \<noteq> n_q_heads self * h_size self then self
          else snd (write_kv self (len3_0 x) sp (len3_1 x) k v))"
  by (simp add: SelfAttention_forward_def Let_def split_beta split: option.splits sum.splits prod.splits)

text \<open>
  C3. After a call on the small instance (identity key projection, zero value
  projection) the key cache holds the rotated key, whose first component is 1, at position
  0, while the tensor the scores are computed from holds the value written there, 0: it is
  a slice of the value cache, not of the key cache.
\<close>

theorem scores_read_the_value_cache:
  "at4 (fst (read_kv (snd (SelfAttention_forward ex_attention ex_x 0 (getitem_rows ex_table 0 1) None)) 1 1)) 0 0 0 0 = 0
   \<and> at4 (getitem_bt (k_cache (snd (SelfAttention_forward ex_attention ex_x 0 (getitem_rows ex_table 0 1) None))) 1 1) 0 0 0 0 = 1"
proof -
  let ?v = "view_heads (LazyLinear (wv ex_attention) (sa_n_kv_heads ex_attention * h_size ex_attention) ex_x) (sa_n_kv_heads ex_attention) (h_size ex_attention)"
  have "\<exists>q k. project_qkv ex_attention ex_x (getitem_rows ex_table 0 1) = Inr (q, k, ?v)
    \<and> same_shape4 k ?v \<and> at4 k 0 0 0 0 = 1"
    by (simp add: project_qkv_def Let_def rope_def ex_attention_def ex_x_def ex_table_def getitem_rows_def
      view_heads_def LazyLinear_def broadcast_dim_def bidx_def slice_len_def slice_lo_def ex_id_def
      numeral_2_eq_2 complex_eq_iff same_shape4_def)
  then obtain q k where p: "project_qkv ex_attention ex_x (getitem_rows ex_table 0 1) = Inr (q, k, ?v)"
    and sh: "same_shape4 k ?v" and k1: "at4 k 0 0 0 0 = 1" by blast
  from sh have ksh: "len4_0 k = 1" "len4_1 k = 1" "len4_2 k = 1" "len4_3 k = 2"
    by (simp_all add: same_shape4_def view_heads_def LazyLinear_def ex_attention_def ex_x_def)
  have s: "snd (SelfAttention_forward ex_attention ex_x 0 (getitem_rows ex_table 0 1) None)
      = snd (write_kv ex_attention 1 0 1 k ?v)"
  proof -
    have c: "len3_2 ex_x = sa_dim ex_attention"
        "len3_2 ex_x = n_q_heads ex_attention * h_size ex_attention"
        "len3_0 ex_x = 1" "len3_1 ex_x = 1"
      by (simp_all add: ex_attention_def ex_x_def)
    show ?thesis
      unfolding snd_forward [OF p] using c by simp
  qed
  show ?thesis
    unfolding s using k1 ksh
    by (simp add: write_kv_def setitem_bt_def Let_def read_kv_def getitem_bt_def rep_tensor_def
        ex_attention_def ex_x_def view_heads_def LazyLinear_def expands_to_def slice_len_def
        slice_lo_def bidx_def)
qed

section \<open>Rotary encoding preserves norms\<close>

lemma bidx_lt [simp]: "i < n \<Longrightarrow> bidx n i = i"
  by (auto simp: bidx_def)

lemma rope_at:
  assumes "rope x fr = Inr y" "rows2 fr = len4_1 x" "cols2 fr = len4_3 x div 2"
    "t < len4_1 x" "c < len4_3 x div 2"
  shows "Complex (at4 y b t h (2 * c)) (at4 y b t h (2 * c + 1))
     = Complex (at4 x b t h (2 * c)) (at4 x b t h (2 * c + 1)) * at2 fr t c"
  using assms
  by (auto simp: rope_def Let_def broadcast_dim_def complex_eq_iff split: if_splits)

lemma rope_succeeds:
  assumes "0 < len4_0 x" "0 < len4_1 x" "0 < len4_2 x" "len4_3 x mod 2 = 0"
    "rows2 fr = len4_1 x" "cols2 fr = len4_3 x div 2"
  shows "\<not> isl (rope x fr)"
proof -
  from assms(4) have "len4_3 x div 2 * 2 = len4_3 x" by presburger
  with assms show ?thesis
    by (simp add: rope_def broadcast_dim_def Let_def)
qed

lemma getitem_rows_in_range:
  assumes "lo + n \<le> rows2 t"
  shows "rows2 (getitem_rows t lo (lo + n)) = n" "cols2 (getitem_rows t lo (lo + n)) = cols2 t"
    "at2 (getitem_rows t lo (lo + n)) i j = at2 t (lo + i) j"
  using assms by (simp_all add: getitem_rows_def slice_len_def slice_lo_def)

text \<open>
  C8. For an even head dimension and positions inside the table, every rotation factor
  has modulus 1, the rotary encoding multiplies the pair \<open>c\<close> of position \<open>t\<close>, as a
  complex number, by the factor of position \<open>start_pos + t\<close> and frequency \<open>c\<close>, and
  the pair keeps its L2 norm.
\<close>

theorem rope_preserves_pair_norm:
  assumes "head_dim mod 2 = 0" "0 < len4_0 x" "0 < len4_1 x" "0 < len4_2 x" "len4_3 x = head_dim"
    "start_pos + len4_1 x \<le> seqlen"
  shows "case precomputed_freqs head_dim seqlen theta of
           Inl e \<Rightarrow> False
         | Inr table \<Rightarrow>
             (\<forall>m i. cmod (at2 table m i) = 1)
             \<and> (case rope x (getitem_rows table start_pos (start_pos + len4_1 x)) of
                  Inl e \<Rightarrow> False
                | Inr y \<Rightarrow>
                    (\<forall>b t h c. t < len4_1 x \<and> c < head_dim div 2 \<longrightarrow>
                       Complex (at4 y b t h (2 * c)) (at4 y b t h (2 * c + 1))
                         = Complex (at4 x b t h (2 * c)) (at4 x b t h (2 * c + 1))
                           * at2 table (start_pos + t) c
                       \<and> sqrt ((at4 y b t h (2 * c))\<^sup>2 + (at4 y b t h (2 * c + 1))\<^sup>2)
                         = sqrt ((at4 x b t h (2 * c))\<^sup>2 + (at4 x b t h (2 * c + 1))\<^sup>2)))"
proof -
  define table where "table = \<lparr> rows2 = seqlen, cols2 = head_dim div 2,
       at2 = (\<lambda>m i. cis (real m * (1 / (theta powr (real (2 * i) / real head_dim))))) \<rparr>"
  have pf: "precomputed_freqs head_dim seqlen theta = Inr table"
    using assms(1) by (simp add: precomputed_freqs_def table_def)
  have unit: "cmod (at2 table m i) = 1" for m i
    by (simp add: table_def)
  let ?fr = "getitem_rows table start_pos (start_pos + len4_1 x)"
  have rows: "start_pos + len4_1 x \<le> rows2 table" using assms(6) by (simp add: table_def)
  note g = getitem_rows_in_range [OF rows]
  have shp: "rows2 ?fr = len4_1 x" "cols2 ?fr = len4_3 x div 2"
    using g(1,2) assms(5) by (simp_all add: table_def)
  from rope_succeeds [OF assms(2,3,4) _ shp] assms(1,5)
  obtain y where y: "rope x ?fr = Inr y" by (cases "rope x ?fr") auto
  have rot: "Complex (at4 y b t h (2 * c)) (at4 y b t h (2 * c + 1))
      = Complex (at4 x b t h (2 * c)) (at4 x b t h (2 * c + 1)) * at2 table (start_pos + t) c"
    if "t < len4_1 x" "c < head_dim div 2" for b t h c
    using rope_at [OF y shp that(1), of c b h] that(2) assms(5) g(3) by simp
  have nrm: "sqrt ((at4 y b t h (2 * c))\<^sup>2 + (at4 y b t h (2 * c + 1))\<^sup>2)
      = sqrt ((at4 x b t h (2 * c))\<^sup>2 + (at4 x b t h (2 * c + 1))\<^sup>2)"
    if "t < len4_1 x" "c < head_dim div 2" for b t h c
  proof -
    have "cmod (Complex (at4 y b t h (2 * c)) (at4 y b t h (2 * c + 1)))
        = cmod (Complex (at4 x b t h (2 * c)) (at4 x b t h (2 * c + 1))) * cmod (at2 table (start_pos + t) c)"
      unfolding rot [OF that] by (rule norm_mult)
    then have "cmod (Complex (at4 y b t h (2 * c)) (at4 y b t h (2 * c + 1)))
        = cmod (Complex (at4 x b t h (2 * c)) (at4 x b t h (2 * c + 1)))"
      by (simp only: unit mult_1_right)
    then show ?thesis by (simp only: complex_norm)
  qed
  show ?thesis
    unfolding pf using y unit rot nrm by simp
qed

theorem rope_preserves_pair_norm_witness:
  "(2::nat) mod 2 = 0 \<and> 0 < len4_0 (view_heads ex_x2 1 2) \<and> 0 < len4_1 (view_heads ex_x2 1 2)
   \<and> 0 < len4_2 (view_heads ex_x2 1 2) \<and> len4_3 (view_heads ex_x2 1 2) = 2
   \<and> 0 + len4_1 (view_heads ex_x2 1 2) \<le> 4
   \<and> (case rope (view_heads ex_x2 1 2)
              (getitem_rows ex_table 0 (0 + len4_1 (view_heads ex_x2 1 2))) of
         Inl e \<Rightarrow> False
       | Inr y \<Rightarrow>
           sqrt ((at4 y 0 1 0 (2 * 0))\<^sup>2 + (at4 y 0 1 0 (2 * 0 + 1))\<^sup>2)
             = sqrt ((at4 (view_heads ex_x2 1 2) 0 1 0 (2 * 0))\<^sup>2
                     + (at4 (view_heads ex_x2 1 2) 0 1 0 (2 * 0 + 1))\<^sup>2))"
proof -
  let ?x = "view_heads ex_x2 1 2"
  have h: "(2::nat) mod 2 = 0" "0 < len4_0 ?x" "0 < len4_1 ?x" "0 < len4_2 ?x" "len4_3 ?x = 2"
    "0 + len4_1 ?x \<le> 4"
    by (simp_all add: view_heads_def ex_x2_def)
  have i: "(1::nat) < len4_1 ?x \<and> (0::nat) < 2 div 2"
    by (simp add: view_heads_def ex_x2_def)
  from rope_preserves_pair_norm [OF h, of 10000] i h show ?thesis
    unfolding ex_table_precomputed
    by (cases "rope ?x (getitem_rows ex_table 0 (0 + len4_1 ?x))") auto
qed

section \<open>Masked attention weights\<close>

lemma causal_mask_Some:
  assumes "1 < T"
  shows "\<exists>m. causal_mask T sp = Some m \<and> rows2 m = T \<and> cols2 m = sp + T
    \<and> (\<forall>p j. at2 m p (sp + j) = (if p < j then NegInf else Fin 0))
    \<and> (\<forall>p j. j < sp \<longrightarrow> at2 m p j = Fin 0)"
  using assms
  by (auto simp: causal_mask_def hstack_zeros_def triu1_def full_neg_inf_def)

lemma attn_weights_at:
  assumes "len4_0 q = len4_0 k" "len4_1 q = len4_1 k" "len4_3 q = len4_3 k"
    "rows2 m = len4_2 q" "cols2 m = len4_2 k"
  shows "\<exists>a. attn_weights q k hs (Some m) = Inr a
    \<and> len4_0 a = len4_0 q \<and> len4_1 a = len4_1 q \<and> len4_2 a = len4_2 q \<and> len4_3 a = len4_2 k
    \<and> (\<forall>b h p s. p < len4_2 q \<and> s < len4_2 k \<longrightarrow>
          at4 a b h p s
            = exp_fval (add_fval ((\<Sum>d<len4_3 q. at4 q (bidx (len4_0 q) b) (bidx (len4_1 q) h) p d
                                       * at4 k (bidx (len4_0 k) b) (bidx (len4_1 k) h) s d)
                                   * sqrt (real hs)) (at2 m p s))
              / (\<Sum>j<len4_2 k.
                   exp_fval (add_fval ((\<Sum>d<len4_3 q. at4 q (bidx (len4_0 q) b) (bidx (len4_1 q) h) p d
                                       * at4 k (bidx (len4_0 k) b) (bidx (len4_1 k) h) j d)
                                   * sqrt (real hs)) (at2 m p j))))"
  using assms
  by (simp add: attn_weights_def matmul_def transpose23_def broadcast_dim_def scale_def
      add_mask_def softmax_def expands_to_def)

text \<open>
  C6. With the causal mask of a call with \<open>T > 1\<close>, the weight after the softmax that the
  query at new position \<open>p\<close> gives to the key at a later new position \<open>j > p\<close>, that is
  at column \<open>start_pos + j\<close>, is zero (exactly, in real arithmetic with \<open>exp (-\<infinity>) = 0\<close>).
\<close>

theorem causal_weights_vanish:
  assumes "1 < T" "len4_0 q = len4_0 k" "len4_1 q = len4_1 k" "len4_3 q = len4_3 k"
    "len4_2 q = T" "len4_2 k = start_pos + T"
  shows "case attn_weights q k hs (causal_mask T start_pos) of
           Inl e \<Rightarrow> False
         | Inr a \<Rightarrow> (\<forall>b h p j. p < j \<and> j < T \<longrightarrow> at4 a b h p (start_pos + j) = 0)"
proof -
  from causal_mask_Some [OF assms(1), of start_pos]
  obtain m where m: "causal_mask T start_pos = Some m" "rows2 m = T" "cols2 m = start_pos + T"
    and above: "\<And>p j. at2 m p (start_pos + j) = (if p < j then NegInf else Fin 0)"
    by blast
  from attn_weights_at [OF assms(2,3,4), of m hs] m(2,3) assms(5,6)
  obtain a where a: "attn_weights q k hs (Some m) = Inr a"
    and at: "\<And>b h p s. p < T \<Longrightarrow> s < start_pos + T \<Longrightarrow>
          at4 a b h p s
            = exp_fval (add_fval ((\<Sum>d<len4_3 q. at4 q (bidx (len4_0 q) b) (bidx (len4_1 q) h) p d
                                       * at4 k (bidx (len4_0 k) b) (bidx (len4_1 k) h) s d)
                                   * sqrt (real hs)) (at2 m p s))
              / (\<Sum>j<start_pos + T.
                   exp_fval (add_fval ((\<Sum>d<len4_3 q. at4 q (bidx (len4_0 q) b) (bidx (len4_1 q) h) p d
                                       * at4 k (bidx (len4_0 k) b) (bidx (len4_1 k) h) j d)
                                   * sqrt (real hs)) (at2 m p j)))"
    by auto
  have "at4 a b h p (start_pos + j) = 0" if "p < j" "j < T" for b h p j
    using at [of p "start_pos + j" b h] that above [of p j] by simp
  with m(1) a show ?thesis by simp
qed


theorem causal_weights_vanish_witness:
  "(1::nat) < 2
   \<and> len4_2 (transpose12 (view_heads ex_x2 1 2)) = 2
   \<and> len4_2 (transpose12 (view_heads ex_x2 1 2)) = 0 + 2
   \<and> (case attn_weights (transpose12 (view_heads ex_x2 1 2)) (transpose12 (view_heads ex_x2 1 2)) 2
              (causal_mask 2 0) of
         Inl e \<Rightarrow> False
       | Inr a \<Rightarrow> at4 a 0 0 0 (0 + 1) = 0)"
proof -
  let ?q = "transpose12 (view_heads ex_x2 1 2)"
  have h: "(1::nat) < 2" "len4_0 ?q = len4_0 ?q" "len4_1 ?q = len4_1 ?q" "len4_3 ?q = len4_3 ?q"
    "len4_2 ?q = 2" "len4_2 ?q = 0 + 2"
    by (simp_all add: transpose12_def view_heads_def ex_x2_def)
  from causal_weights_vanish [OF h, of 2] h show ?thesis
    by (cases "attn_weights ?q ?q 2 (causal_mask 2 0)") auto
qed


section \<open>A call on a chunk of the sequence\<close>

lemma div_lt_heads: "i < n * hs \<Longrightarrow> i div hs < (n::nat)"
  by (simp add: less_mult_imp_div_less)

lemma setitem_bt_at:
  assumes "len4_0 src \<le> len4_0 c" "lo + len4_1 src \<le> len4_1 c"
    "len4_2 src = len4_2 c" "len4_3 src = len4_3 c"
  shows "\<exists>c'. setitem_bt c (len4_0 src) lo (lo + len4_1 src) src = Inr c'
    \<and> same_shape4 c' c
    \<and> (\<forall>b t h d. at4 c' b t h d =
          (if b < len4_0 src \<and> lo \<le> t \<and> t < lo + len4_1 src \<and> h < len4_2 c \<and> d < len4_3 c
           then at4 src b (t - lo) h d else at4 c b t h d))"
  using assms
  by (auto simp: setitem_bt_def Let_def expands_to_def slice_len_def slice_lo_def same_shape4_def)

lemma causal_weights_at:
  assumes "len4_0 q = len4_0 k" "len4_1 q = len4_1 k" "len4_3 q = len4_3 k"
    "len4_2 q = T" "len4_2 k = sp + T" "0 < T"
  shows "\<exists>a. attn_weights q k hs (causal_mask T sp) = Inr a
    \<and> len4_0 a = len4_0 q \<and> len4_1 a = len4_1 q \<and> len4_2 a = T \<and> len4_3 a = sp + T
    \<and> (\<forall>b h t j. b < len4_0 q \<and> h < len4_1 q \<and> t < T \<and> j < sp + T \<longrightarrow>
          at4 a b h t j
            = (if j \<le> sp + t then exp ((\<Sum>d<len4_3 q. at4 q b h t d * at4 k b h j d) * sqrt (real hs)) else 0)
              / (\<Sum>j'<sp + T. if j' \<le> sp + t
                   then exp ((\<Sum>d<len4_3 q. at4 q b h t d * at4 k b h j' d) * sqrt (real hs)) else 0))"
proof (cases "1 < T")
  case True
  from causal_mask_Some [OF True, of sp]
  obtain m where m: "causal_mask T sp = Some m" "rows2 m = T" "cols2 m = sp + T"
    and above: "\<And>p j. at2 m p (sp + j) = (if p < j then NegInf else Fin 0)"
    and left: "\<And>p j. j < sp \<Longrightarrow> at2 m p j = Fin 0"
    by blast
  have mv: "at2 m t j = (if j \<le> sp + t then Fin 0 else NegInf)" for t j
  proof (cases "j < sp")
    case True then show ?thesis using left by simp
  next
    case False
    then have "j = sp + (j - sp)" by simp
    then show ?thesis using above [of t "j - sp"] by (metis add_le_cancel_left not_le)
  qed
  have e: "exp_fval (add_fval s (at2 m t j)) = (if j \<le> sp + t then exp s else 0)" for s t j
    by (simp add: mv)
  from attn_weights_at [OF assms(1,2,3), of m hs] m(2,3) assms(4,5)
  obtain a where a: "attn_weights q k hs (Some m) = Inr a"
    "len4_0 a = len4_0 q" "len4_1 a = len4_1 q" "len4_2 a = T" "len4_3 a = sp + T"
    and at: "\<And>b h p s. p < T \<Longrightarrow> s < sp + T \<Longrightarrow>
          at4 a b h p s
            = exp_fval (add_fval ((\<Sum>d<len4_3 q. at4 q (bidx (len4_0 q) b) (bidx (len4_1 q) h) p d
                                       * at4 k (bidx (len4_0 k) b) (bidx (len4_1 k) h) s d)
                                   * sqrt (real hs)) (at2 m p s))
              / (\<Sum>j<sp + T.
                   exp_fval (add_fval ((\<Sum>d<len4_3 q. at4 q (bidx (len4_0 q) b) (bidx (len4_1 q) h) p d
                                       * at4 k (bidx (len4_0 k) b) (bidx (len4_1 k) h) j d)
                                   * sqrt (real hs)) (at2 m p j)))"
    by auto
  show ?thesis
    unfolding m(1) using a(2-5) assms(1,2)
    by (intro exI [of _ a]) (simp add: a(1) at e)
next
  case False
  with assms(6) have T1: "T = 1" by simp
  show ?thesis
    using assms T1
    by (simp add: causal_mask_def attn_weights_def matmul_def transpose23_def broadcast_dim_def
        scale_def add_mask_def softmax_def)
qed

lemma sum_upto_if:
  fixes f :: "nat \<Rightarrow> real"
  assumes "p < n"
  shows "(\<Sum>j<n. if j \<le> p then f j else 0) = (\<Sum>j<p + 1. f j)"
proof -
  have "(\<Sum>j<n. if j \<le> p then f j else 0) = (\<Sum>j\<in>{..<n} \<inter> {j. j \<le> p}. f j)"
    by (simp add: sum.inter_restrict)
  also have "{..<n} \<inter> {j. j \<le> p} = {..<p + 1}" using assms by auto
  finally show ?thesis .
qed

lemma sum_upto_if_mult:
  fixes f g :: "nat \<Rightarrow> real"
  assumes "p < n"
  shows "(\<Sum>j<n. (if j \<le> p then f j else 0) / z * g j) = (\<Sum>j<p + 1. f j / z * g j)"
proof -
  have "(\<Sum>j<n. (if j \<le> p then f j else 0) / z * g j) = (\<Sum>j<n. if j \<le> p then f j / z * g j else 0)"
    by (intro sum.cong) auto
  then show ?thesis using sum_upto_if [OF assms, of "\<lambda>j. f j / z * g j"] by simp
qed

lemma attn_output_at:
  assumes "len4_0 a = B" "len4_1 a = n_q_heads self" "len4_2 a = T" "len4_3 a = K"
    "len4_0 v = B" "len4_1 v = n_q_heads self" "len4_2 v = K" "len4_3 v = h_size self"
  shows "\<exists>y. attn_output self a v B T = Inr y
    \<and> len3_0 y = B \<and> len3_1 y = T \<and> len3_2 y = sa_dim self
    \<and> (\<forall>b t c. b < B \<and> t < T \<longrightarrow>
          at3 y b t c = lin_vec (wo self) (n_q_heads self * h_size self)
             (\<lambda>i. \<Sum>j<K. at4 a b (i div h_size self) t j * at4 v b (i div h_size self) j (i mod h_size self)) c)"
  using assms
  by (simp add: attn_output_def matmul_def broadcast_dim_def transpose12_def view_merged_def
      LazyLinear_def lin_vec_def div_lt_heads)

lemma chunk_ok_call_ok:
  assumes "chunk_ok self x sp fr"
  shows "call_ok self x sp fr (causal_mask (len3_1 x) sp)"
proof -
  have "case causal_mask (len3_1 x) sp of None \<Rightarrow> True
     | Some m \<Rightarrow> expands_to (rows2 m) (len3_1 x)
         \<and> expands_to (cols2 m) (slice_len (len4_1 (v_cache self)) 0 (sp + len3_1 x))"
    using assms
    by (auto simp: causal_mask_def hstack_zeros_def triu1_def full_neg_inf_def expands_to_def
        slice_len_def chunk_ok_def)
  with assms show ?thesis
    unfolding chunk_ok_def call_ok_def
    by (auto simp: expands_to_def slice_len_def)
qed

lemma read_kv_at:
  "at4 (fst (read_kv self B hi)) b j h d = at4 (v_cache self) b j (kv_head self h) d"
  "at4 (snd (read_kv self B hi)) b j h d = at4 (v_cache self) b j (kv_head self h) d"
  by (simp_all add: read_kv_def Let_def getitem_bt_def rep_tensor_def kv_head_def)

lemma forward_chunk:
  assumes ok: "chunk_ok self x sp fr"
  shows "\<exists>q k v y kc vc.
      project_qkv self x fr = Inr (q, k, v)
      \<and> SelfAttention_forward self x sp fr (causal_mask (len3_1 x) sp)
          = (Inr y, self \<lparr> k_cache := kc, v_cache := vc \<rparr>)
      \<and> same_shape4 kc (k_cache self) \<and> same_shape4 vc (v_cache self)
      \<and> (\<forall>b t h d. at4 kc b t h d =
            (if b < len3_0 x \<and> sp \<le> t \<and> t < sp + len3_1 x \<and> h < sa_n_kv_heads self \<and> d < h_size self
             then at4 k b (t - sp) h d else at4 (k_cache self) b t h d))
      \<and> (\<forall>b t h d. at4 vc b t h d =
            (if b < len3_0 x \<and> sp \<le> t \<and> t < sp + len3_1 x \<and> h < sa_n_kv_heads self \<and> d < h_size self
             then at4 v b (t - sp) h d else at4 (v_cache self) b t h d))
      \<and> len3_0 y = len3_0 x \<and> len3_1 y = len3_1 x \<and> len3_2 y = sa_dim self
      \<and> (\<forall>b t c. b < len3_0 x \<and> t < len3_1 x \<longrightarrow>
            at3 y b t c = attend_out self (at4 q b t) (\<lambda>j. at4 vc b j) (sp + t) c)"
proof -
  let ?B = "len3_0 x" and ?T = "len3_1 x"
  note cok = chunk_ok_call_ok [OF ok]
  from project_qkv_ok [OF cok] obtain q k v where p: "project_qkv self x fr = Inr (q, k, v)" by blast
  note sh = project_qkv_shape [OF p]
  from ok have c: "len3_2 x = sa_dim self" "sa_dim self = n_q_heads self * h_size self"
    "?B \<le> len4_0 (k_cache self)" "sp + ?T \<le> len4_1 (k_cache self)"
    "len4_2 (k_cache self) = sa_n_kv_heads self" "len4_3 (k_cache self) = h_size self"
    "?B \<le> len4_0 (v_cache self)" "sp + ?T \<le> len4_1 (v_cache self)"
    "len4_2 (v_cache self) = sa_n_kv_heads self" "len4_3 (v_cache self) = h_size self"
    "n_q_heads self = sa_n_kv_heads self * n_rep self" "0 < ?T"
    unfolding chunk_ok_def by linarith+
  from setitem_bt_at [of k "k_cache self" sp] sh c
  obtain kc where kc: "setitem_bt (k_cache self) ?B sp (sp + ?T) k = Inr kc"
    and kcs: "same_shape4 kc (k_cache self)"
    and kcat: "\<And>b t h d. at4 kc b t h d =
          (if b < ?B \<and> sp \<le> t \<and> t < sp + ?T \<and> h < sa_n_kv_heads self \<and> d < h_size self
           then at4 k b (t - sp) h d else at4 (k_cache self) b t h d)"
    by auto
  from setitem_bt_at [of v "v_cache self" sp] sh c
  obtain vc where vc: "setitem_bt (v_cache self) ?B sp (sp + ?T) v = Inr vc"
    and vcs: "same_shape4 vc (v_cache self)"
    and vcat: "\<And>b t h d. at4 vc b t h d =
          (if b < ?B \<and> sp \<le> t \<and> t < sp + ?T \<and> h < sa_n_kv_heads self \<and> d < h_size self
           then at4 v b (t - sp) h d else at4 (v_cache self) b t h d)"
    by auto
  define self' where "self' = self \<lparr> k_cache := kc, v_cache := vc \<rparr>"
  have w: "write_kv self ?B sp ?T k v = (None, self')"
    using kc vc by (simp add: write_kv_def self'_def)
  have f: "n_rep self' = n_rep self" "n_q_heads self' = n_q_heads self" "h_size self' = h_size self"
    "v_cache self' = vc" "wo self' = wo self" "sa_dim self' = sa_dim self"
    by (simp_all add: self'_def)
  define kk where "kk = transpose12 (fst (read_kv self' ?B (sp + ?T)))"
  define vv where "vv = transpose12 (snd (read_kv self' ?B (sp + ?T)))"
  define qq where "qq = transpose12 q"
  have nh: "(if n_rep self = 1 then sa_n_kv_heads self else sa_n_kv_heads self * n_rep self) = n_q_heads self"
    using c(11) by auto
  have vsh: "len4_0 vc = len4_0 (v_cache self)" "len4_1 vc = len4_1 (v_cache self)"
    "len4_2 vc = sa_n_kv_heads self" "len4_3 vc = h_size self"
    using vcs c by (simp_all add: same_shape4_def)
  have ksh: "len4_0 kk = ?B" "len4_1 kk = n_q_heads self" "len4_2 kk = sp + ?T" "len4_3 kk = h_size self"
    using c nh vsh by (simp_all add: kk_def transpose12_def read_kv_shape f min_def)
  have vvsh: "len4_0 vv = ?B" "len4_1 vv = n_q_heads self" "len4_2 vv = sp + ?T" "len4_3 vv = h_size self"
    using c nh vsh by (simp_all add: vv_def transpose12_def read_kv_shape f min_def)
  have qsh: "len4_0 qq = ?B" "len4_1 qq = n_q_heads self" "len4_2 qq = ?T" "len4_3 qq = h_size self"
    using sh by (simp_all add: qq_def transpose12_def)
  have kat: "at4 kk b h j d = at4 vc b j (kv_head self h) d" for b h j d
    by (simp add: kk_def transpose12_def read_kv_at f kv_head_def)
  have vvat: "at4 vv b h j d = at4 vc b j (kv_head self h) d" for b h j d
    by (simp add: vv_def transpose12_def read_kv_at f kv_head_def)
  have qat: "at4 qq b h t d = at4 q b t h d" for b h t d
    by (simp add: qq_def transpose12_def)
  have sc: "(\<Sum>d<len4_3 qq. at4 qq b h t d * at4 kk b h j d) * sqrt (real (h_size self))
      = attend_score self (at4 q b t) (\<lambda>j. at4 vc b j) h j" for b h t j
    by (simp add: attend_score_def qat kat qsh)
  from causal_weights_at [of qq kk ?T sp "h_size self", unfolded sc] qsh ksh c(12)
  obtain a where a: "attn_weights qq kk (h_size self) (causal_mask ?T sp) = Inr a"
    and ash: "len4_0 a = ?B" "len4_1 a = n_q_heads self" "len4_2 a = ?T" "len4_3 a = sp + ?T"
    and aat: "\<And>b h t j. b < ?B \<Longrightarrow> h < n_q_heads self \<Longrightarrow> t < ?T \<Longrightarrow> j < sp + ?T \<Longrightarrow>
          at4 a b h t j
            = (if j \<le> sp + t then exp (attend_score self (at4 q b t) (\<lambda>j. at4 vc b j) h j) else 0)
              / (\<Sum>j'<sp + ?T. if j' \<le> sp + t
                   then exp (attend_score self (at4 q b t) (\<lambda>j. at4 vc b j) h j') else 0)"
    by auto
  from attn_output_at [of a ?B self' ?T "sp + ?T" vv] ash vvsh
  obtain y where y: "attn_output self' a vv ?B ?T = Inr y"
    and ysh: "len3_0 y = ?B" "len3_1 y = ?T" "len3_2 y = sa_dim self"
    and yat: "\<And>b t c. b < ?B \<Longrightarrow> t < ?T \<Longrightarrow>
          at3 y b t c = lin_vec (wo self) (n_q_heads self * h_size self)
             (\<lambda>i. \<Sum>j<sp + ?T. at4 a b (i div h_size self) t j * at4 vv b (i div h_size self) j (i mod h_size self)) c"
    by (auto simp: f)
  have fw: "SelfAttention_forward self x sp fr (causal_mask ?T sp) = (Inr y, self')"
    using p w a y c(2)
    by (simp add: SelfAttention_forward_def Let_def c(1) kk_def vv_def qq_def split_beta f)
  have out: "at3 y b t cc = attend_out self (at4 q b t) (\<lambda>j. at4 vc b j) (sp + t) cc"
    if "b < ?B" "t < ?T" for b t cc
  proof -
    have pn: "sp + t < sp + ?T" using that by simp
    have inner: "(\<Sum>j<sp + ?T. at4 a b h t j * at4 vv b h j d)
        = attend_ctx self (at4 q b t) (\<lambda>j. at4 vc b j) (sp + t) h d"
      if "h < n_q_heads self" for h d
    proof -
      have "(\<Sum>j<sp + ?T. at4 a b h t j * at4 vv b h j d)
          = (\<Sum>j<sp + ?T. (if j \<le> sp + t then exp (attend_score self (at4 q b t) (\<lambda>j. at4 vc b j) h j) else 0)
              / (\<Sum>j'<sp + ?T. if j' \<le> sp + t
                   then exp (attend_score self (at4 q b t) (\<lambda>j. at4 vc b j) h j') else 0)
              * at4 vc b j (kv_head self h) d)"
        by (intro sum.cong refl) (simp add: aat [OF \<open>b < ?B\<close> that \<open>t < ?T\<close>] vvat)
      also have "\<dots> = attend_ctx self (at4 q b t) (\<lambda>j. at4 vc b j) (sp + t) h d"
        unfolding sum_upto_if_mult [OF pn] sum_upto_if [OF pn] attend_ctx_def ..
      finally show ?thesis .
    qed
    show ?thesis
      unfolding yat [OF that] attend_out_def lin_vec_def
      by (intro sum.cong refl) (simp add: inner div_lt_heads)
  qed
  show ?thesis
    using p fw kcs vcs kcat vcat ysh out unfolding self'_def by blast
qed

lemma lin_vec_cong:
  "(\<And>i. i < n \<Longrightarrow> u i = u' i) \<Longrightarrow> lin_vec W n u c = lin_vec W n u' c"
  by (simp add: lin_vec_def)

lemma project_qkv_at:
  assumes "project_qkv self x fr = Inr (q, k, v)" "rows2 fr = len3_1 x" "cols2 fr = h_size self div 2"
  shows "at4 v b t h d = lin_vec (wv self) (len3_2 x) (at3 x b t) (h * h_size self + d)"
    and "t < len3_1 x \<Longrightarrow> d < h_size self \<Longrightarrow>
      at4 q b t h d = rot_vec (\<lambda>d'. lin_vec (wq self) (len3_2 x) (at3 x b t) (h * h_size self + d'))
                        (at2 fr t) d"
    and "t < len3_1 x \<Longrightarrow> d < h_size self \<Longrightarrow>
      at4 k b t h d = rot_vec (\<lambda>d'. lin_vec (wk self) (len3_2 x) (at3 x b t) (h * h_size self + d'))
                        (at2 fr t) d"
proof -
  let ?q = "view_heads (LazyLinear (wq self) (n_q_heads self * h_size self) x) (n_q_heads self) (h_size self)"
  let ?k = "view_heads (LazyLinear (wk self) (sa_n_kv_heads self * h_size self) x) (sa_n_kv_heads self) (h_size self)"
  from assms(1) have rq: "rope ?q fr = Inr q" and rk: "rope ?k fr = Inr k"
    and v: "v = view_heads (LazyLinear (wv self) (sa_n_kv_heads self * h_size self) x) (sa_n_kv_heads self) (h_size self)"
    by (auto simp: project_qkv_def Let_def split: sum.splits)
  show "at4 v b t h d = lin_vec (wv self) (len3_2 x) (at3 x b t) (h * h_size self + d)"
    by (simp add: v view_heads_def LazyLinear_def lin_vec_def)
  assume t: "t < len3_1 x" and d: "d < h_size self"
  have ev: "h_size self mod 2 = 0"
    using rq by (auto simp: rope_def view_heads_def LazyLinear_def split: if_splits)
  with d have d2: "d div 2 < h_size self div 2" by presburger
  have qa: "at4 ?q b t h d' = lin_vec (wq self) (len3_2 x) (at3 x b t) (h * h_size self + d')" for d'
    by (simp add: view_heads_def LazyLinear_def lin_vec_def)
  have sh: "len4_1 ?q = len3_1 x" "len4_3 ?q = h_size self"
    by (simp_all add: view_heads_def LazyLinear_def)
  from rq t d2 assms(2,3) sh
  have "at4 q b t h d =
     (if d mod 2 = 0
      then Re (Complex (at4 ?q b t h (2 * (d div 2))) (at4 ?q b t h (2 * (d div 2) + 1)) * at2 fr t (d div 2))
      else Im (Complex (at4 ?q b t h (2 * (d div 2))) (at4 ?q b t h (2 * (d div 2) + 1)) * at2 fr t (d div 2)))"
    by (auto simp: rope_def Let_def broadcast_dim_def split: if_splits)
  then show "at4 q b t h d = rot_vec (\<lambda>d'. lin_vec (wq self) (len3_2 x) (at3 x b t) (h * h_size self + d'))
                        (at2 fr t) d"
    unfolding qa rot_vec_def .
  have ka: "at4 ?k b t h d' = lin_vec (wk self) (len3_2 x) (at3 x b t) (h * h_size self + d')" for d'
    by (simp add: view_heads_def LazyLinear_def lin_vec_def)
  have shk: "len4_1 ?k = len3_1 x" "len4_3 ?k = h_size self"
    by (simp_all add: view_heads_def LazyLinear_def)
  from rk t d2 assms(2,3) shk
  have "at4 k b t h d =
     (if d mod 2 = 0
      then Re (Complex (at4 ?k b t h (2 * (d div 2))) (at4 ?k b t h (2 * (d div 2) + 1)) * at2 fr t (d div 2))
      else Im (Complex (at4 ?k b t h (2 * (d div 2))) (at4 ?k b t h (2 * (d div 2) + 1)) * at2 fr t (d div 2)))"
    by (auto simp: rope_def Let_def broadcast_dim_def split: if_splits)
  then show "at4 k b t h d = rot_vec (\<lambda>d'. lin_vec (wk self) (len3_2 x) (at3 x b t) (h * h_size self + d'))
                        (at2 fr t) d"
    unfolding ka rot_vec_def .
qed

lemma kv_head_lt:
  assumes "n_q_heads self = sa_n_kv_heads self * n_rep self" "h < n_q_heads self"
  shows "kv_head self h < sa_n_kv_heads self"
  using assms by (auto simp: kv_head_def less_mult_imp_div_less)

lemma mod_lt_heads: "i < n * hs \<Longrightarrow> i mod hs < (hs::nat)"
  by (cases "hs = 0") auto

lemma attend_out_cong:
  assumes "\<And>h d. h < n_q_heads self \<Longrightarrow> d < h_size self \<Longrightarrow> Q h d = Q' h d"
    and "\<And>j h d. j \<le> p \<Longrightarrow> h < n_q_heads self \<Longrightarrow> d < h_size self \<Longrightarrow>
           V j (kv_head self h) d = V' j (kv_head self h) d"
  shows "attend_out self Q V p c = attend_out self Q' V' p c"
proof -
  have sc: "attend_score self Q V h j = attend_score self Q' V' h j"
    if "h < n_q_heads self" "j \<le> p" for h j
    unfolding attend_score_def using that assms by simp
  have cx: "attend_ctx self Q V p h d = attend_ctx self Q' V' p h d"
    if "h < n_q_heads self" "d < h_size self" for h d
    unfolding attend_ctx_def using that assms(2) sc by simp
  show ?thesis
    unfolding attend_out_def
    by (intro lin_vec_cong cx) (simp_all add: div_lt_heads mod_lt_heads)
qed

lemma rot_vec_cong:
  "(\<And>i. u i = u' i) \<Longrightarrow> (\<And>i. z i = z' i) \<Longrightarrow> rot_vec u z d = rot_vec u' z' d"
  by (simp add: rot_vec_def)

lemma kv_head_caches [simp]: "kv_head (self \<lparr> k_cache := kc, v_cache := vc \<rparr>) = kv_head self"
  by (simp add: fun_eq_iff kv_head_def)

lemma attend_score_caches [simp]:
  "attend_score (self \<lparr> k_cache := kc, v_cache := vc \<rparr>) = attend_score self"
  by (simp add: fun_eq_iff attend_score_def)

lemma attend_ctx_caches [simp]:
  "attend_ctx (self \<lparr> k_cache := kc, v_cache := vc \<rparr>) = attend_ctx self"
  by (simp add: fun_eq_iff attend_ctx_def)

lemma attend_out_caches [simp]:
  "attend_out (self \<lparr> k_cache := kc, v_cache := vc \<rparr>) = attend_out self"
  by (simp add: fun_eq_iff attend_out_def)

lemma v_ref_caches [simp]: "v_ref (self \<lparr> k_cache := kc, v_cache := vc \<rparr>) = v_ref self"
  by (simp add: fun_eq_iff v_ref_def)

lemma q_ref_caches [simp]: "q_ref (self \<lparr> k_cache := kc, v_cache := vc \<rparr>) = q_ref self"
  by (simp add: fun_eq_iff q_ref_def)

lemma attn_ref_caches [simp]: "attn_ref (self \<lparr> k_cache := kc, v_cache := vc \<rparr>) = attn_ref self"
  by (simp add: fun_eq_iff attn_ref_def)

lemma attention_chunk_ref:
  assumes ok: "chunk_ok self x sp fr"
    and fr: "\<And>t c. t < len3_1 x \<Longrightarrow> at2 fr t c = at2 table (sp + t) c"
    and xs: "\<And>b t c. b < len3_0 x \<Longrightarrow> t < len3_1 x \<Longrightarrow> c < sa_dim self \<Longrightarrow> at3 x b t c = X b (sp + t) c"
    and inv: "cache_holds self X (len3_0 x) sp"
  shows "\<exists>y kc vc.
      SelfAttention_forward self x sp fr (causal_mask (len3_1 x) sp)
          = (Inr y, self \<lparr> k_cache := kc, v_cache := vc \<rparr>)
      \<and> same_shape4 kc (k_cache self) \<and> same_shape4 vc (v_cache self)
      \<and> cache_holds (self \<lparr> k_cache := kc, v_cache := vc \<rparr>) X (len3_0 x) (sp + len3_1 x)
      \<and> len3_0 y = len3_0 x \<and> len3_1 y = len3_1 x \<and> len3_2 y = sa_dim self
      \<and> (\<forall>b t c. b < len3_0 x \<and> t < len3_1 x \<longrightarrow>
            at3 y b t c = attn_ref self table (X b) (sp + t) c)"
proof -
  let ?B = "len3_0 x" and ?T = "len3_1 x"
  from ok have c: "len3_2 x = sa_dim self" "rows2 fr = ?T" "cols2 fr = h_size self div 2"
    "n_q_heads self = sa_n_kv_heads self * n_rep self"
    unfolding chunk_ok_def by linarith+
  from forward_chunk [OF ok]
  obtain q k v y kc vc where p: "project_qkv self x fr = Inr (q, k, v)"
    and fw: "SelfAttention_forward self x sp fr (causal_mask ?T sp)
          = (Inr y, self \<lparr> k_cache := kc, v_cache := vc \<rparr>)"
    and shp: "same_shape4 kc (k_cache self)" "same_shape4 vc (v_cache self)"
    and vcat: "\<And>b t h d. at4 vc b t h d =
            (if b < ?B \<and> sp \<le> t \<and> t < sp + ?T \<and> h < sa_n_kv_heads self \<and> d < h_size self
             then at4 v b (t - sp) h d else at4 (v_cache self) b t h d)"
    and ysh: "len3_0 y = ?B" "len3_1 y = ?T" "len3_2 y = sa_dim self"
    and yat: "\<And>b t c. b < ?B \<Longrightarrow> t < ?T \<Longrightarrow>
            at3 y b t c = attend_out self (at4 q b t) (\<lambda>j. at4 vc b j) (sp + t) c"
    by blast
  note pa = project_qkv_at [OF p c(2,3)]
  have vval: "at4 vc b j h d = v_ref self (X b) j h d"
    if "b < ?B" "j < sp + ?T" "h < sa_n_kv_heads self" "d < h_size self" for b j h d
  proof (cases "sp \<le> j")
    case True
    with that have t: "j - sp < ?T" by simp
    have "at4 vc b j h d = at4 v b (j - sp) h d"
      using vcat [of b j h d] that True by simp
    also have "\<dots> = lin_vec (wv self) (sa_dim self) (at3 x b (j - sp)) (h * h_size self + d)"
      unfolding pa(1) c(1) ..
    also have "\<dots> = lin_vec (wv self) (sa_dim self) (X b j) (h * h_size self + d)"
      using xs [OF that(1) t] True by (intro lin_vec_cong) simp
    finally show ?thesis by (simp add: v_ref_def)
  next
    case False
    then have "at4 vc b j h d = at4 (v_cache self) b j h d"
      using vcat [of b j h d] by simp
    with inv that False show ?thesis by (simp add: cache_holds_def)
  qed
  have holds: "cache_holds (self \<lparr> k_cache := kc, v_cache := vc \<rparr>) X ?B (sp + ?T)"
    using vval by (simp add: cache_holds_def)
  have out: "at3 y b t cc = attn_ref self table (X b) (sp + t) cc"
    if "b < ?B" "t < ?T" for b t cc
  proof -
    have qv: "at4 q b t h d = q_ref self table (X b) (sp + t) h d"
      if "h < n_q_heads self" "d < h_size self" for h d
      unfolding pa(2) [OF \<open>t < ?T\<close> that(2)] q_ref_def c(1)
      using xs [OF \<open>b < ?B\<close> \<open>t < ?T\<close>] fr [OF \<open>t < ?T\<close>]
      by (intro rot_vec_cong lin_vec_cong) simp_all
    have vv: "at4 vc b j (kv_head self h) d = v_ref self (X b) j (kv_head self h) d"
      if "j \<le> sp + t" "h < n_q_heads self" "d < h_size self" for j h d
      using vval [OF \<open>b < ?B\<close> _ kv_head_lt [OF c(4) that(2)] that(3), of j] that(1) \<open>t < ?T\<close>
      by simp
    show ?thesis
      unfolding yat [OF that] attn_ref_def
      by (intro attend_out_cong qv vv)
  qed
  show ?thesis
    using fw shp holds ysh out by blast
qed

lemma rms_vec_cong:
  "(\<And>i. i < n \<Longrightarrow> u i = u' i) \<Longrightarrow> c < n \<Longrightarrow> rms_vec nm n u c = rms_vec nm n u' c"
  by (simp add: rms_vec_def)

lemma ffn_vec_cong:
  "(\<And>i. i < n \<Longrightarrow> u i = u' i) \<Longrightarrow> ffn_vec f n u c = ffn_vec f n u' c"
  unfolding ffn_vec_def
  by (intro lin_vec_cong arg_cong2 [where f = "(*)"] arg_cong [where f = silu]) simp_all

lemma RMSNorm_forward_at:
  assumes "rms_dim nm = len3_2 x"
  shows "\<exists>y. RMSNorm_forward nm x = Inr y
    \<and> len3_0 y = len3_0 x \<and> len3_1 y = len3_1 x \<and> len3_2 y = len3_2 x
    \<and> (\<forall>b t c. c < len3_2 x \<longrightarrow> at3 y b t c = rms_vec nm (len3_2 x) (at3 x b t) c)"
  using assms
  by (simp add: RMSNorm_forward_def broadcast_dim_def rms_vec_def)

lemma FFN_forward_at:
  "len3_0 (FFN_forward f x) = len3_0 x" "len3_1 (FFN_forward f x) = len3_1 x"
  "len3_2 (FFN_forward f x) = ffn_dim f"
  "at3 (FFN_forward f x) b t c = ffn_vec f (len3_2 x) (at3 x b t) c"
  by (simp_all add: FFN_forward_def Let_def LazyLinear_def ffn_vec_def lin_vec_def)

lemma add3_at:
  assumes "len3_0 y = len3_0 x" "len3_1 y = len3_1 x" "len3_2 y = len3_2 x"
  shows "\<exists>z. add3 x y = Inr z
    \<and> len3_0 z = len3_0 x \<and> len3_1 z = len3_1 x \<and> len3_2 z = len3_2 x
    \<and> (\<forall>b t c. b < len3_0 x \<and> t < len3_1 x \<and> c < len3_2 x \<longrightarrow>
          at3 z b t c = at3 x b t c + at3 y b t c)"
  using assms
  by (simp add: add3_def broadcast_dim_def)

lemma SelfAttention_ofD:
  assumes "SelfAttention_of args att"
  shows "sa_dim att = dim' args" "n_q_heads att = n_heads args"
    "0 < sa_n_kv_heads att" "n_q_heads att mod sa_n_kv_heads att = 0" "0 < n_q_heads att"
    "n_rep att = n_q_heads att div sa_n_kv_heads att" "h_size att = dim' args div n_heads args"
    "len4_0 (k_cache att) = batch_size args" "len4_1 (k_cache att) = seq_len args"
    "len4_2 (k_cache att) = sa_n_kv_heads att" "len4_3 (k_cache att) = h_size att"
    "len4_0 (v_cache att) = batch_size args" "len4_1 (v_cache att) = seq_len args"
    "len4_2 (v_cache att) = sa_n_kv_heads att" "len4_3 (v_cache att) = h_size att"
  using assms unfolding SelfAttention_of_def by blast+

lemma chunk_ok_of:
  assumes "SelfAttention_of args att" "config_ok args" "len3_2 x = dim' args"
    "0 < len3_0 x" "len3_0 x \<le> batch_size args" "0 < len3_1 x" "sp + len3_1 x \<le> seq_len args"
    "rows2 fr = len3_1 x" "cols2 fr = (dim' args div n_heads args) div 2"
  shows "chunk_ok att x sp fr"
proof -
  note d = SelfAttention_ofD [OF assms(1)]
  from d(4,6) have r: "n_q_heads att = sa_n_kv_heads att * n_rep att" by auto
  from assms(2) have c: "dim' args = n_heads args * (dim' args div n_heads args)"
      "(dim' args div n_heads args) mod 2 = 0"
    unfolding config_ok_def by blast+
  have 1: "len3_2 x = sa_dim att" using assms(3) d(1) by simp
  have 2: "sa_dim att = n_q_heads att * h_size att"
    unfolding d(1) d(2) d(7) by (rule c(1))
  have 3: "h_size att mod 2 = 0" unfolding d(7) by (rule c(2))
  have 4: "cols2 fr = h_size att div 2" unfolding d(7) by (rule assms(9))
  have 5: "len3_0 x \<le> len4_0 (k_cache att)" "sp + len3_1 x \<le> len4_1 (k_cache att)"
    "len3_0 x \<le> len4_0 (v_cache att)" "sp + len3_1 x \<le> len4_1 (v_cache att)"
    unfolding d(8,9,12,13) using assms(5,7) by blast+
  show ?thesis
    unfolding chunk_ok_def
    using 1 2 3 4 5 r assms(4,6,8) d(3,5,10,11,14,15) by blast
qed

lemma SelfAttention_of_caches:
  assumes "SelfAttention_of args att" "same_shape4 kc (k_cache att)" "same_shape4 vc (v_cache att)"
  shows "SelfAttention_of args (att \<lparr> k_cache := kc, v_cache := vc \<rparr>)"
  using assms unfolding SelfAttention_of_def same_shape4_def by auto

lemma block_ref_attention [simp]:
  "block_ref (blk \<lparr> attention := (attention blk) \<lparr> k_cache := kc, v_cache := vc \<rparr> \<rparr>) = block_ref blk"
  by (simp add: fun_eq_iff block_ref_def Let_def)

lemma block_chunk_ref:
  assumes lo: "layer_ok args blk" and cfg: "config_ok args"
    and xsh: "len3_2 x = dim' args" "0 < len3_0 x" "len3_0 x \<le> batch_size args"
      "0 < len3_1 x" "sp + len3_1 x \<le> seq_len args"
    and frs: "rows2 fr = len3_1 x" "cols2 fr = (dim' args div n_heads args) div 2"
    and fr: "\<And>t c. t < len3_1 x \<Longrightarrow> at2 fr t c = at2 table (sp + t) c"
    and xs: "\<And>b t c. b < len3_0 x \<Longrightarrow> t < len3_1 x \<Longrightarrow> c < dim' args \<Longrightarrow> at3 x b t c = X b (sp + t) c"
    and inv: "cache_holds (attention blk) (\<lambda>b p. rms_vec (attn_norm blk) (dim' args) (X b p)) (len3_0 x) sp"
  shows "\<exists>y kc vc.
      TransformerBlock_forward blk x sp (causal_mask (len3_1 x) sp) fr
        = (Inr y, blk \<lparr> attention := (attention blk) \<lparr> k_cache := kc, v_cache := vc \<rparr> \<rparr>)
      \<and> same_shape4 kc (k_cache (attention blk)) \<and> same_shape4 vc (v_cache (attention blk))
      \<and> cache_holds ((attention blk) \<lparr> k_cache := kc, v_cache := vc \<rparr>)
           (\<lambda>b p. rms_vec (attn_norm blk) (dim' args) (X b p)) (len3_0 x) (sp + len3_1 x)
      \<and> len3_0 y = len3_0 x \<and> len3_1 y = len3_1 x \<and> len3_2 y = len3_2 x
      \<and> (\<forall>b t c. b < len3_0 x \<and> t < len3_1 x \<and> c < dim' args \<longrightarrow>
            at3 y b t c = block_ref blk table (X b) (sp + t) c)"
proof -
  let ?B = "len3_0 x" and ?T = "len3_1 x" and ?D = "dim' args"
  let ?att = "attention blk"
  let ?Xn = "\<lambda>b p. rms_vec (attn_norm blk) ?D (X b p)"
  from lo have l: "SelfAttention_of args ?att" "rms_dim (attn_norm blk) = ?D"
    "rms_dim (ffn_norm blk) = ?D" "ffn_dim (ffn blk) = ?D"
    by (simp_all add: layer_ok_def)
  from SelfAttention_ofD(1) [OF l(1)] have sd: "sa_dim ?att = ?D" .
  from RMSNorm_forward_at [of "attn_norm blk" x] l(2) xsh(1)
  obtain xn where xn: "RMSNorm_forward (attn_norm blk) x = Inr xn"
    and xnsh: "len3_0 xn = ?B" "len3_1 xn = ?T" "len3_2 xn = ?D"
    and xnat: "\<And>b t c. c < ?D \<Longrightarrow> at3 xn b t c = rms_vec (attn_norm blk) ?D (at3 x b t) c"
    by auto
  have ok: "chunk_ok ?att xn sp fr"
    using chunk_ok_of [OF l(1) cfg, of xn sp fr] xnsh xsh frs by simp
  have xns: "at3 xn b t c = ?Xn b (sp + t) c" if "b < len3_0 xn" "t < len3_1 xn" "c < sa_dim ?att" for b t c
  proof -
    from that have r: "b < ?B" "t < ?T" "c < ?D" using xnsh sd by simp_all
    have "at3 xn b t c = rms_vec (attn_norm blk) ?D (at3 x b t) c" using xnat [OF r(3)] .
    also have "\<dots> = rms_vec (attn_norm blk) ?D (X b (sp + t)) c"
      using xs [OF r(1,2)] r(3) by (intro rms_vec_cong) simp_all
    finally show ?thesis .
  qed
  have inv': "cache_holds ?att ?Xn (len3_0 xn) sp" using inv xnsh by simp
  have fr': "at2 fr t c = at2 table (sp + t) c" if "t < len3_1 xn" for t c
    using fr that xnsh by simp
  note r = attention_chunk_ref [OF ok fr' xns inv', unfolded xnsh sd]
  from r
  obtain a kc vc where fw: "SelfAttention_forward ?att xn sp fr (causal_mask ?T sp)
          = (Inr a, ?att \<lparr> k_cache := kc, v_cache := vc \<rparr>)"
    and shp: "same_shape4 kc (k_cache ?att)" "same_shape4 vc (v_cache ?att)"
    and holds: "cache_holds (?att \<lparr> k_cache := kc, v_cache := vc \<rparr>) ?Xn ?B (sp + ?T)"
    and ash: "len3_0 a = ?B" "len3_1 a = ?T" "len3_2 a = ?D"
    and aat: "\<And>b t c. b < ?B \<Longrightarrow> t < ?T \<Longrightarrow> at3 a b t c = attn_ref ?att table (?Xn b) (sp + t) c"
    by blast
  define blk' where "blk' = blk \<lparr> attention := ?att \<lparr> k_cache := kc, v_cache := vc \<rparr> \<rparr>"
  from add3_at [of a x] ash xsh(1)
  obtain x1 where x1: "add3 x a = Inr x1"
    and x1sh: "len3_0 x1 = ?B" "len3_1 x1 = ?T" "len3_2 x1 = ?D"
    and x1at: "\<And>b t c. b < ?B \<Longrightarrow> t < ?T \<Longrightarrow> c < ?D \<Longrightarrow> at3 x1 b t c = at3 x b t c + at3 a b t c"
    by auto
  from RMSNorm_forward_at [of "ffn_norm blk" x1] l(3) x1sh
  obtain xn2 where xn2: "RMSNorm_forward (ffn_norm blk) x1 = Inr xn2"
    and xn2sh: "len3_0 xn2 = ?B" "len3_1 xn2 = ?T" "len3_2 xn2 = ?D"
    and xn2at: "\<And>b t c. c < ?D \<Longrightarrow> at3 xn2 b t c = rms_vec (ffn_norm blk) ?D (at3 x1 b t) c"
    by auto
  let ?f = "FFN_forward (ffn blk) xn2"
  from add3_at [of ?f x1] x1sh xn2sh l(4)
  obtain y where y: "add3 x1 ?f = Inr y"
    and ysh: "len3_0 y = ?B" "len3_1 y = ?T" "len3_2 y = ?D"
    and yat: "\<And>b t c. b < ?B \<Longrightarrow> t < ?T \<Longrightarrow> c < ?D \<Longrightarrow> at3 y b t c = at3 x1 b t c + at3 ?f b t c"
    by (auto simp: FFN_forward_at)
  have run: "TransformerBlock_forward blk x sp (causal_mask ?T sp) fr = (Inr y, blk')"
    by (simp add: TransformerBlock_forward_def xn fw x1 Let_def blk'_def xn2 y)
  have out: "at3 y b t c = block_ref blk table (X b) (sp + t) c"
    if "b < ?B" "t < ?T" "c < ?D" for b t c
  proof -
    let ?x1 = "\<lambda>c. X b (sp + t) c + attn_ref ?att table (?Xn b) (sp + t) c"
    have a1: "at3 x1 b t i = ?x1 i" if "i < ?D" for i
      using x1at [OF \<open>b < ?B\<close> \<open>t < ?T\<close> that] xs [OF \<open>b < ?B\<close> \<open>t < ?T\<close> that] aat [OF \<open>b < ?B\<close> \<open>t < ?T\<close>]
      by simp
    have a2: "at3 xn2 b t i = rms_vec (ffn_norm blk) ?D ?x1 i" if "i < ?D" for i
      unfolding xn2at [OF that] using a1 that by (intro rms_vec_cong) simp_all
    have "at3 y b t c = ?x1 c + ffn_vec (ffn blk) ?D (at3 xn2 b t) c"
      using yat [OF that] a1 [OF that(3)] xn2sh by (simp add: FFN_forward_at)
    also have "ffn_vec (ffn blk) ?D (at3 xn2 b t) c = ffn_vec (ffn blk) ?D (rms_vec (ffn_norm blk) ?D ?x1) c"
      using a2 by (intro ffn_vec_cong) simp
    finally show ?thesis by (simp add: block_ref_def Let_def sd)
  qed
  show ?thesis
    using run shp holds ysh xsh(1) out unfolding blk'_def
    by (intro exI [of _ y] exI [of _ kc] exI [of _ vc]) simp
qed

lemma layer_ok_caches:
  assumes "layer_ok args blk" "same_shape4 kc (k_cache (attention blk))"
    "same_shape4 vc (v_cache (attention blk))"
  shows "layer_ok args (blk \<lparr> attention := (attention blk) \<lparr> k_cache := kc, v_cache := vc \<rparr> \<rparr>)"
  using assms SelfAttention_of_caches [of args "attention blk" kc vc]
  by (simp add: layer_ok_def)

lemma caches_hold_0: "caches_hold ls table X B 0"
  by (induction ls arbitrary: X) (simp_all add: cache_holds_def)

lemma layers_chunk_ref:
  assumes "list_all (layer_ok args) ls" and cfg: "config_ok args"
    and xsh: "len3_2 x = dim' args" "0 < len3_0 x" "len3_0 x \<le> batch_size args"
      "0 < len3_1 x" "sp + len3_1 x \<le> seq_len args"
    and frs: "rows2 fr = len3_1 x" "cols2 fr = (dim' args div n_heads args) div 2"
    and fr: "\<And>t c. t < len3_1 x \<Longrightarrow> at2 fr t c = at2 table (sp + t) c"
    and xs: "\<And>b t c. b < len3_0 x \<Longrightarrow> t < len3_1 x \<Longrightarrow> c < dim' args \<Longrightarrow> at3 x b t c = X b (sp + t) c"
    and inv: "caches_hold ls table X (len3_0 x) sp"
  shows "\<exists>y ls'.
      run_layers ls x sp (causal_mask (len3_1 x) sp) fr = (Inr y, ls')
      \<and> list_all (layer_ok args) ls'
      \<and> layers_ref ls' table = layers_ref ls table
      \<and> caches_hold ls' table X (len3_0 x) (sp + len3_1 x)
      \<and> len3_0 y = len3_0 x \<and> len3_1 y = len3_1 x \<and> len3_2 y = len3_2 x
      \<and> (\<forall>b t c. b < len3_0 x \<and> t < len3_1 x \<and> c < dim' args \<longrightarrow>
            at3 y b t c = layers_ref ls table (X b) (sp + t) c)"
  using assms(1) xsh frs fr xs inv
proof (induction ls arbitrary: x X)
  case Nil
  then show ?case by (simp add: fun_eq_iff)
next
  case (Cons blk ls)
  let ?B = "len3_0 x" and ?T = "len3_1 x" and ?D = "dim' args"
  from Cons.prems(1) have lo: "layer_ok args blk" and los: "list_all (layer_ok args) ls" by simp_all
  from lo have sd: "sa_dim (attention blk) = ?D"
    using SelfAttention_ofD(1) by (simp add: layer_ok_def)
  from Cons.prems(11) have inv1: "cache_holds (attention blk)
        (\<lambda>b p. rms_vec (attn_norm blk) ?D (X b p)) ?B sp"
    and inv2: "caches_hold ls table (\<lambda>b. block_ref blk table (X b)) ?B sp"
    by (simp_all add: sd)
  from block_chunk_ref [OF lo cfg Cons.prems(2-6) Cons.prems(7,8) Cons.prems(9) Cons.prems(10) inv1]
  obtain y1 kc vc where
    run1: "TransformerBlock_forward blk x sp (causal_mask ?T sp) fr
        = (Inr y1, blk \<lparr> attention := (attention blk) \<lparr> k_cache := kc, v_cache := vc \<rparr> \<rparr>)"
    and shp: "same_shape4 kc (k_cache (attention blk))" "same_shape4 vc (v_cache (attention blk))"
    and h1: "cache_holds ((attention blk) \<lparr> k_cache := kc, v_cache := vc \<rparr>)
           (\<lambda>b p. rms_vec (attn_norm blk) ?D (X b p)) ?B (sp + ?T)"
    and y1sh: "len3_0 y1 = ?B" "len3_1 y1 = ?T" "len3_2 y1 = len3_2 x"
    and y1at: "\<And>b t c. b < ?B \<Longrightarrow> t < ?T \<Longrightarrow> c < ?D \<Longrightarrow>
            at3 y1 b t c = block_ref blk table (X b) (sp + t) c"
    by blast
  define blk' where "blk' = blk \<lparr> attention := (attention blk) \<lparr> k_cache := kc, v_cache := vc \<rparr> \<rparr>"
  have lo': "layer_ok args blk'" unfolding blk'_def by (rule layer_ok_caches [OF lo shp])
  have br: "block_ref blk' = block_ref blk" unfolding blk'_def by simp
  have p2: "len3_2 y1 = ?D" "0 < len3_0 y1" "len3_0 y1 \<le> batch_size args"
      "0 < len3_1 y1" "sp + len3_1 y1 \<le> seq_len args"
      "rows2 fr = len3_1 y1" "cols2 fr = (dim' args div n_heads args) div 2"
    using y1sh Cons.prems(2-8) by simp_all
  have fr2: "at2 fr t c = at2 table (sp + t) c" if "t < len3_1 y1" for t c
    using Cons.prems(9) that y1sh by simp
  have xs2: "at3 y1 b t c = block_ref blk table (X b) (sp + t) c"
    if "b < len3_0 y1" "t < len3_1 y1" "c < ?D" for b t c
    using y1at that y1sh by simp
  have inv2': "caches_hold ls table (\<lambda>b. block_ref blk table (X b)) (len3_0 y1) sp"
    using inv2 y1sh by simp
  from Cons.IH [OF los p2 fr2 xs2 inv2']
  obtain y ls' where
    run2: "run_layers ls y1 sp (causal_mask (len3_1 y1) sp) fr = (Inr y, ls')"
    and los': "list_all (layer_ok args) ls'"
    and lr: "layers_ref ls' table = layers_ref ls table"
    and h2: "caches_hold ls' table (\<lambda>b. block_ref blk table (X b)) (len3_0 y1) (sp + len3_1 y1)"
    and ysh: "len3_0 y = len3_0 y1" "len3_1 y = len3_1 y1" "len3_2 y = len3_2 y1"
    and yat: "\<And>b t c. b < len3_0 y1 \<Longrightarrow> t < len3_1 y1 \<Longrightarrow> c < ?D \<Longrightarrow>
            at3 y b t c = layers_ref ls table (block_ref blk table (X b)) (sp + t) c"
    by blast
  have run: "run_layers (blk # ls) x sp (causal_mask ?T sp) fr = (Inr y, blk' # ls')"
    using run1 run2 y1sh by (simp add: blk'_def)
  have hold: "caches_hold (blk' # ls') table X ?B (sp + ?T)"
    using h1 h2 y1sh br by (simp add: blk'_def sd)
  have ref: "layers_ref (blk' # ls') table = layers_ref (blk # ls) table"
    by (rule ext) (simp add: lr br)
  show ?case
    using run lo' los' ref hold ysh y1sh yat
    by (intro exI [of _ y] exI [of _ "blk' # ls'"]) simp
qed

lemma emb_ref_layers [simp]: "emb_ref (self \<lparr> layers := ls \<rparr>) = emb_ref self"
  by (simp add: fun_eq_iff emb_ref_def)

lemma embedding_at:
  assumes "\<And>b t. b < rows2 x \<Longrightarrow> t < cols2 x \<Longrightarrow> at2 x b t < vocab"
  shows "embedding E vocab dm x
     = Inr \<lparr> len3_0 = rows2 x, len3_1 = cols2 x, len3_2 = dm, at3 = (\<lambda>b t c. E (at2 x b t) c) \<rparr>"
  using assms by (auto simp: embedding_def not_le)

lemma model_chunk_ref:
  assumes tf: "Transformer_of args self" and cfg: "config_ok args"
    and xsh: "0 < rows2 x" "rows2 x \<le> batch_size args" "0 < cols2 x" "sp + cols2 x \<le> seq_len args"
    and voc: "\<And>b t. b < rows2 x \<Longrightarrow> t < cols2 x \<Longrightarrow> at2 x b t < vocab_size args"
    and xs: "\<And>b t. b < rows2 x \<Longrightarrow> t < cols2 x \<Longrightarrow> at2 x b t = at2 tokens b (sp + t)"
    and inv: "caches_hold (layers self) (freqs_table self) (emb_ref self tokens) (rows2 x) sp"
  shows "\<exists>y ls'.
      Transformer_forward self x sp = (Inr y, self \<lparr> layers := ls' \<rparr>)
      \<and> Transformer_of args (self \<lparr> layers := ls' \<rparr>)
      \<and> logits_ref (self \<lparr> layers := ls' \<rparr>) = logits_ref self
      \<and> caches_hold ls' (freqs_table self) (emb_ref self tokens) (rows2 x) (sp + cols2 x)
      \<and> len3_0 y = rows2 x \<and> len3_1 y = cols2 x \<and> len3_2 y = vocab_size args
      \<and> (\<forall>b t v. b < rows2 x \<and> t < cols2 x \<longrightarrow>
            at3 y b t v = logits_ref self tokens b (sp + t) v)"
proof -
  let ?B = "rows2 x" and ?T = "cols2 x" and ?D = "dim' args"
  let ?table = "freqs_table self"
  from tf have t: "t_args self = args" "list_all (layer_ok args) (layers self)"
    "rms_dim (norm' self) = ?D" "rows2 ?table = seq_len args * 2"
    "cols2 ?table = (dim' args div n_heads args) div 2"
    unfolding Transformer_of_def by blast+
  define e where "e = \<lparr> len3_0 = ?B, len3_1 = ?T, len3_2 = ?D,
      at3 = (\<lambda>b t c. tok_embeddings self (at2 x b t) c) \<rparr>"
  have emb: "embedding (tok_embeddings self) (vocab_size (t_args self)) (dim' (t_args self)) x = Inr e"
    unfolding t(1) e_def using voc by (rule embedding_at)
  define fr where "fr = getitem_rows ?table sp (sp + ?T)"
  have rows: "sp + ?T \<le> rows2 ?table" using xsh(4) t(4) by simp
  note g = getitem_rows_in_range [OF rows]
  have esh: "len3_2 e = ?D" "0 < len3_0 e" "len3_0 e \<le> batch_size args"
      "0 < len3_1 e" "sp + len3_1 e \<le> seq_len args"
    using xsh by (simp_all add: e_def)
  have frs: "rows2 fr = len3_1 e" "cols2 fr = (dim' args div n_heads args) div 2"
    using g(1,2) t(5) by (simp_all add: fr_def e_def)
  have frat: "at2 fr tt c = at2 ?table (sp + tt) c" if "tt < len3_1 e" for tt c
    unfolding fr_def by (rule g(3))
  have es: "at3 e b tt c = emb_ref self tokens b (sp + tt) c"
    if "b < len3_0 e" "tt < len3_1 e" "c < ?D" for b tt c
    using that xs [of b tt] by (simp add: e_def emb_ref_def)
  have inv': "caches_hold (layers self) ?table (emb_ref self tokens) (len3_0 e) sp"
    using inv by (simp add: e_def)
  from layers_chunk_ref [OF t(2) cfg esh frs frat es inv']
  obtain y1 ls' where
    run1: "run_layers (layers self) e sp (causal_mask (len3_1 e) sp) fr = (Inr y1, ls')"
    and los: "list_all (layer_ok args) ls'"
    and lr: "layers_ref ls' ?table = layers_ref (layers self) ?table"
    and hold: "caches_hold ls' ?table (emb_ref self tokens) (len3_0 e) (sp + len3_1 e)"
    and y1sh: "len3_0 y1 = len3_0 e" "len3_1 y1 = len3_1 e" "len3_2 y1 = len3_2 e"
    and y1at: "\<And>b tt c. b < len3_0 e \<Longrightarrow> tt < len3_1 e \<Longrightarrow> c < ?D \<Longrightarrow>
            at3 y1 b tt c = layers_ref (layers self) ?table (emb_ref self tokens b) (sp + tt) c"
    by blast
  define self' where "self' = self \<lparr> layers := ls' \<rparr>"
  from RMSNorm_forward_at [of "norm' self" y1] t(3) y1sh esh(1)
  obtain yn where yn: "RMSNorm_forward (norm' self) y1 = Inr yn"
    and ynsh: "len3_0 yn = ?B" "len3_1 yn = ?T" "len3_2 yn = ?D"
    and ynat: "\<And>b tt c. c < ?D \<Longrightarrow> at3 yn b tt c = rms_vec (norm' self) ?D (at3 y1 b tt) c"
    by (auto simp: e_def)
  define y where "y = LazyLinear (out self) (vocab_size args) yn"
  have run: "Transformer_forward self x sp = (Inr y, self')"
    using emb run1 yn
    by (simp add: Transformer_forward_def fr_def e_def Let_def self'_def y_def t(1))
  have tf': "Transformer_of args self'"
    using t los by (simp add: Transformer_of_def self'_def)
  have lg: "logits_ref self' = logits_ref self"
    by (intro ext) (simp add: logits_ref_def self'_def lr)
  have ysh: "len3_0 y = ?B" "len3_1 y = ?T" "len3_2 y = vocab_size args"
    using ynsh by (simp_all add: y_def LazyLinear_def)
  have out: "at3 y b tt v = logits_ref self tokens b (sp + tt) v" if "b < ?B" "tt < ?T" for b tt v
  proof -
    have "at3 y b tt v = lin_vec (out self) ?D (at3 yn b tt) v"
      using ynsh by (simp add: y_def LazyLinear_def lin_vec_def)
    also have "\<dots> = lin_vec (out self) ?D
        (rms_vec (norm' self) ?D (layers_ref (layers self) ?table (emb_ref self tokens b) (sp + tt))) v"
    proof (intro lin_vec_cong)
      fix i assume i: "i < ?D"
      have "at3 yn b tt i = rms_vec (norm' self) ?D (at3 y1 b tt) i" by (rule ynat [OF i])
      also have "\<dots> = rms_vec (norm' self) ?D
          (layers_ref (layers self) ?table (emb_ref self tokens b) (sp + tt)) i"
        using y1at [of b tt] that i by (intro rms_vec_cong) (simp_all add: e_def)
      finally show "at3 yn b tt i = rms_vec (norm' self) ?D
          (layers_ref (layers self) ?table (emb_ref self tokens b) (sp + tt)) i" .
    qed
    finally show ?thesis by (simp add: logits_ref_def t(1))
  qed
  have hold': "caches_hold ls' ?table (emb_ref self tokens) ?B (sp + ?T)"
    using hold by (simp add: e_def)
  show ?thesis
    using run tf' lg hold' ysh out unfolding self'_def
    by (intro exI [of _ y] exI [of _ ls']) simp
qed

section \<open>What \<^verbatim>\<open>__init__\<close> establishes\<close>

lemma TransformerBlock_init_ok:
  assumes "TransformerBlock_init args bw = Inr blk"
  shows "layer_ok args blk"
proof -
  from assms obtain att f where
    a: "SelfAttention_init args (bw_wq bw) (bw_wk bw) (bw_wv bw) (bw_wo bw) (bw_k_empty bw) (bw_v_empty bw) = Inr att"
    and f: "FFN_init (dim' args) (multiple_of args) None (bw_w1 bw) (bw_w2 bw) (bw_w3 bw) = Inr f"
    and b: "blk = \<lparr> attention = att,
                      attn_norm = \<lparr> rms_dim = dim' args, rms_w = bw_attn_norm bw, rms_eps = 1 / 10 ^ 6 \<rparr>,
                      ffn = f,
                      ffn_norm = \<lparr> rms_dim = dim' args, rms_w = bw_ffn_norm bw, rms_eps = 1 / 10 ^ 6 \<rparr> \<rparr>"
    by (auto simp: TransformerBlock_init_def split: sum.splits)
  from f have "ffn_dim f = dim' args"
    by (auto simp: FFN_init_def split: sum.splits if_splits)
  with SelfAttention_init_of [OF a] b show ?thesis by (simp add: layer_ok_def)
qed

lemma init_layers_ok:
  "init_layers args bws = Inr blks \<Longrightarrow> list_all (layer_ok args) blks"
  by (induction bws arbitrary: blks)
    (auto split: sum.splits dest: TransformerBlock_init_ok)

lemma Transformer_init_of:
  assumes "Transformer_init args emb bws norm_w out_w = Inr self"
  shows "Transformer_of args self \<and> (dim' args div n_heads args) mod 2 = 0"
  using assms
  by (auto simp: Transformer_init_def Transformer_of_def precomputed_freqs_def
      split: sum.splits if_splits dest: init_layers_ok)

lemma ex_model_init:
  "Transformer_init ex_model_args ex_id (\<lambda>i. ex_weights) (\<lambda>c. 1) ex_id = Inr ex_model"
  by (simp add: Transformer_init_def ex_model_args_def ex_model_def ex_block_def ex_weights_def
      TransformerBlock_init_def SelfAttention_init_def FFN_init_def FFN_hidden_dim_def
      py_int_truediv_def py_floordiv_def precomputed_freqs_def)

lemma lin_vec_ex_id: "c < n \<Longrightarrow> lin_vec ex_id n u c = u c"
proof -
  assume c: "c < n"
  have "lin_vec ex_id n u c = (\<Sum>i<n. if c = i then u i else 0)"
    unfolding lin_vec_def ex_id_def by (intro sum.cong refl) simp
  also have "\<dots> = u c" using c by simp
  finally show ?thesis .
qed

section \<open>Every layer follows the contract\<close>

lemma mask_value_causal:
  assumes "t < T" "j < sp + T"
  shows "exp_fval (add_fval s (mask_value (causal_mask T sp) t j)) = (if j \<le> sp + t then exp s else 0)"
proof (cases "1 < T")
  case True
  from causal_mask_Some [OF True, of sp]
  obtain m where m: "causal_mask T sp = Some m" "rows2 m = T" "cols2 m = sp + T"
    and above: "\<And>p j. at2 m p (sp + j) = (if p < j then NegInf else Fin 0)"
    and left: "\<And>p j. j < sp \<Longrightarrow> at2 m p j = Fin 0"
    by blast
  have mv: "at2 m t j = (if j \<le> sp + t then Fin 0 else NegInf)"
  proof (cases "j < sp")
    case True then show ?thesis using left by simp
  next
    case False
    then have "j = sp + (j - sp)" by simp
    then show ?thesis using above [of t "j - sp"] by (metis add_le_cancel_left not_le)
  qed
  show ?thesis by (simp add: m(1) mask_value_def mv)
next
  case False
  with assms have "T = 1" "t = 0" "j \<le> sp" by simp_all
  then show ?thesis by (simp add: causal_mask_def mask_value_def)
qed

lemma contract_attention_causal:
  assumes "t < T"
  shows "contract_attention self Q V V (mask_value (causal_mask T sp) t) (sp + T) c
     = attend_out self Q V (sp + t) c"
proof -
  have pn: "sp + t < sp + T" using assms by simp
  have inner: "(\<Sum>j<sp + T. masked_softmax (\<lambda>j. attend_score self Q V h j) (mask_value (causal_mask T sp) t) (sp + T) j
                    * V j (kv_head self h) d)
      = attend_ctx self Q V (sp + t) h d" for h d
  proof -
    have den: "(\<Sum>j'<sp + T. exp_fval (add_fval (attend_score self Q V h j') (mask_value (causal_mask T sp) t j')))
        = (\<Sum>j'<sp + T. if j' \<le> sp + t then exp (attend_score self Q V h j') else 0)"
      by (intro sum.cong refl) (simp add: mask_value_causal [OF assms])
    have "(\<Sum>j<sp + T. masked_softmax (\<lambda>j. attend_score self Q V h j) (mask_value (causal_mask T sp) t) (sp + T) j
                    * V j (kv_head self h) d)
        = (\<Sum>j<sp + T. (if j \<le> sp + t then exp (attend_score self Q V h j) else 0)
              / (\<Sum>j'<sp + T. if j' \<le> sp + t then exp (attend_score self Q V h j') else 0)
              * V j (kv_head self h) d)"
      unfolding masked_softmax_def den
      by (intro sum.cong refl) (simp add: mask_value_causal [OF assms])
    also have "\<dots> = attend_ctx self Q V (sp + t) h d"
      unfolding sum_upto_if_mult [OF pn] sum_upto_if [OF pn] attend_ctx_def ..
    finally show ?thesis .
  qed
  show ?thesis
    unfolding contract_attention_def attend_out_def
    by (simp add: inner [unfolded attend_score_def])
qed

lemma rotated_cong:
  "(\<And>i. i < n \<Longrightarrow> u i = u' i) \<Longrightarrow> (\<And>i. z i = z' i) \<Longrightarrow> rotated W n hs u z h d = rotated W n hs u' z' h d"
  unfolding rotated_def by (intro rot_vec_cong lin_vec_cong) simp_all

lemma attention_call_contract:
  assumes ok: "chunk_ok self x sp fr"
    and fr: "\<And>t c. t < len3_1 x \<Longrightarrow> at2 fr t c = at2 table (sp + t) c"
  shows "\<exists>y kc vc.
      SelfAttention_forward self x sp fr (causal_mask (len3_1 x) sp)
          = (Inr y, self \<lparr> k_cache := kc, v_cache := vc \<rparr>)
      \<and> same_shape4 kc (k_cache self) \<and> same_shape4 vc (v_cache self)
      \<and> (\<forall>b t h d. b < len3_0 x \<and> t < len3_1 x \<and> h < sa_n_kv_heads self \<and> d < h_size self \<longrightarrow>
            at4 kc b (sp + t) h d
              = rotated (wk self) (len3_2 x) (h_size self) (at3 x b t) (at2 table (sp + t)) h d
            \<and> at4 vc b (sp + t) h d = lin_vec (wv self) (len3_2 x) (at3 x b t) (h * h_size self + d))
      \<and> len3_0 y = len3_0 x \<and> len3_1 y = len3_1 x \<and> len3_2 y = sa_dim self
      \<and> (\<forall>b t c. b < len3_0 x \<and> t < len3_1 x \<longrightarrow>
            at3 y b t c = contract_attention self
               (rotated (wq self) (len3_2 x) (h_size self) (at3 x b t) (at2 table (sp + t)))
               (\<lambda>j. at4 vc b j) (\<lambda>j. at4 vc b j)
               (mask_value (causal_mask (len3_1 x) sp) t) (sp + len3_1 x) c)"
proof -
  let ?B = "len3_0 x" and ?T = "len3_1 x"
  from ok have c: "len3_2 x = sa_dim self" "rows2 fr = ?T" "cols2 fr = h_size self div 2"
    "n_q_heads self = sa_n_kv_heads self * n_rep self"
    unfolding chunk_ok_def by linarith+
  from forward_chunk [OF ok]
  obtain q k v y kc vc where p: "project_qkv self x fr = Inr (q, k, v)"
    and fw: "SelfAttention_forward self x sp fr (causal_mask ?T sp)
          = (Inr y, self \<lparr> k_cache := kc, v_cache := vc \<rparr>)"
    and shp: "same_shape4 kc (k_cache self)" "same_shape4 vc (v_cache self)"
    and kcat: "\<And>b t h d. at4 kc b t h d =
            (if b < ?B \<and> sp \<le> t \<and> t < sp + ?T \<and> h < sa_n_kv_heads self \<and> d < h_size self
             then at4 k b (t - sp) h d else at4 (k_cache self) b t h d)"
    and vcat: "\<And>b t h d. at4 vc b t h d =
            (if b < ?B \<and> sp \<le> t \<and> t < sp + ?T \<and> h < sa_n_kv_heads self \<and> d < h_size self
             then at4 v b (t - sp) h d else at4 (v_cache self) b t h d)"
    and ysh: "len3_0 y = ?B" "len3_1 y = ?T" "len3_2 y = sa_dim self"
    and yat: "\<And>b t c. b < ?B \<Longrightarrow> t < ?T \<Longrightarrow>
            at3 y b t c = attend_out self (at4 q b t) (\<lambda>j. at4 vc b j) (sp + t) c"
    by blast
  note pa = project_qkv_at [OF p c(2,3)]
  have written: "at4 kc b (sp + t) h d
              = rotated (wk self) (len3_2 x) (h_size self) (at3 x b t) (at2 table (sp + t)) h d
            \<and> at4 vc b (sp + t) h d = lin_vec (wv self) (len3_2 x) (at3 x b t) (h * h_size self + d)"
    if "b < ?B" "t < ?T" "h < sa_n_kv_heads self" "d < h_size self" for b t h d
  proof
    have "at4 kc b (sp + t) h d = at4 k b t h d"
      using kcat [of b "sp + t" h d] that by simp
    also have "\<dots> = rot_vec (\<lambda>d'. lin_vec (wk self) (len3_2 x) (at3 x b t) (h * h_size self + d')) (at2 fr t) d"
      by (rule pa(3) [OF that(2,4)])
    also have "\<dots> = rotated (wk self) (len3_2 x) (h_size self) (at3 x b t) (at2 table (sp + t)) h d"
      unfolding rotated_def using fr [OF that(2)] by (intro rot_vec_cong) simp_all
    finally show "at4 kc b (sp + t) h d
              = rotated (wk self) (len3_2 x) (h_size self) (at3 x b t) (at2 table (sp + t)) h d" .
    have "at4 vc b (sp + t) h d = at4 v b t h d"
      using vcat [of b "sp + t" h d] that by simp
    then show "at4 vc b (sp + t) h d = lin_vec (wv self) (len3_2 x) (at3 x b t) (h * h_size self + d)"
      unfolding pa(1) .
  qed
  have out: "at3 y b t cc = contract_attention self
               (rotated (wq self) (len3_2 x) (h_size self) (at3 x b t) (at2 table (sp + t)))
               (\<lambda>j. at4 vc b j) (\<lambda>j. at4 vc b j)
               (mask_value (causal_mask ?T sp) t) (sp + ?T) cc"
    if "b < ?B" "t < ?T" for b t cc
  proof -
    have qv: "at4 q b t h d = rotated (wq self) (len3_2 x) (h_size self) (at3 x b t) (at2 table (sp + t)) h d"
      if "h < n_q_heads self" "d < h_size self" for h d
      unfolding pa(2) [OF \<open>t < ?T\<close> that(2)] rotated_def
      using fr [OF \<open>t < ?T\<close>] by (intro rot_vec_cong) simp_all
    show ?thesis
      unfolding yat [OF that] contract_attention_causal [OF that(2)]
      by (intro attend_out_cong qv refl)
  qed
  show ?thesis
    using fw shp written ysh out by blast
qed

lemma contract_attention_cong:
  assumes "\<And>h d. h < n_q_heads self \<Longrightarrow> d < h_size self \<Longrightarrow> Q h d = Q' h d"
  shows "contract_attention self Q K V m n c = contract_attention self Q' K V m n c"
proof -
  have sc: "(\<lambda>j. (\<Sum>d<h_size self. Q h d * K j (kv_head self h) d) * sqrt (real (h_size self)))
      = (\<lambda>j. (\<Sum>d<h_size self. Q' h d * K j (kv_head self h) d) * sqrt (real (h_size self)))"
    if "h < n_q_heads self" for h
    using assms [OF that] by simp
  show ?thesis
    unfolding contract_attention_def
    by (intro lin_vec_cong) (simp add: sc div_lt_heads)
qed

lemma block_call_contract:
  assumes lo: "layer_ok args blk" and cfg: "config_ok args"
    and xsh: "len3_2 x = dim' args" "0 < len3_0 x" "len3_0 x \<le> batch_size args"
      "0 < len3_1 x" "sp + len3_1 x \<le> seq_len args"
    and frs: "rows2 fr = len3_1 x" "cols2 fr = (dim' args div n_heads args) div 2"
    and fr: "\<And>t c. t < len3_1 x \<Longrightarrow> at2 fr t c = at2 table (sp + t) c"
  shows "\<exists>y kc vc.
      TransformerBlock_forward blk x sp (causal_mask (len3_1 x) sp) fr
        = (Inr y, blk \<lparr> attention := (attention blk) \<lparr> k_cache := kc, v_cache := vc \<rparr> \<rparr>)
      \<and> same_shape4 kc (k_cache (attention blk)) \<and> same_shape4 vc (v_cache (attention blk))
      \<and> layer_follows_contract blk (blk \<lparr> attention := (attention blk) \<lparr> k_cache := kc, v_cache := vc \<rparr> \<rparr>)
           x y sp table (causal_mask (len3_1 x) sp)"
proof -
  let ?B = "len3_0 x" and ?T = "len3_1 x" and ?D = "dim' args"
  let ?att = "attention blk"
  let ?hs = "h_size ?att"
  let ?xn = "\<lambda>b t. rms_vec (attn_norm blk) ?D (at3 x b t)"
  from lo have l: "SelfAttention_of args ?att" "rms_dim (attn_norm blk) = ?D"
    "rms_dim (ffn_norm blk) = ?D" "ffn_dim (ffn blk) = ?D"
    by (simp_all add: layer_ok_def)
  from SelfAttention_ofD(1) [OF l(1)] have sd: "sa_dim ?att = ?D" .
  from RMSNorm_forward_at [of "attn_norm blk" x] l(2) xsh(1)
  obtain xn where xn: "RMSNorm_forward (attn_norm blk) x = Inr xn"
    and xnsh: "len3_0 xn = ?B" "len3_1 xn = ?T" "len3_2 xn = ?D"
    and xnat: "\<And>b t c. c < ?D \<Longrightarrow> at3 xn b t c = ?xn b t c"
    by auto
  have ok: "chunk_ok ?att xn sp fr"
    using chunk_ok_of [OF l(1) cfg, of xn sp fr] xnsh xsh frs by simp
  have fr': "at2 fr t c = at2 table (sp + t) c" if "t < len3_1 xn" for t c
    using fr that xnsh by simp
  note r = attention_call_contract [OF ok fr', unfolded xnsh sd]
  from r
  obtain a kc vc where fw: "SelfAttention_forward ?att xn sp fr (causal_mask ?T sp)
          = (Inr a, ?att \<lparr> k_cache := kc, v_cache := vc \<rparr>)"
    and shp: "same_shape4 kc (k_cache ?att)" "same_shape4 vc (v_cache ?att)"
    and written: "\<And>b t h d. b < ?B \<Longrightarrow> t < ?T \<Longrightarrow> h < sa_n_kv_heads ?att \<Longrightarrow> d < ?hs \<Longrightarrow>
            at4 kc b (sp + t) h d = rotated (wk ?att) ?D ?hs (at3 xn b t) (at2 table (sp + t)) h d
            \<and> at4 vc b (sp + t) h d = lin_vec (wv ?att) ?D (at3 xn b t) (h * ?hs + d)"
    and ash: "len3_0 a = ?B" "len3_1 a = ?T" "len3_2 a = ?D"
    and aat: "\<And>b t c. b < ?B \<Longrightarrow> t < ?T \<Longrightarrow>
            at3 a b t c = contract_attention ?att
               (rotated (wq ?att) ?D ?hs (at3 xn b t) (at2 table (sp + t)))
               (\<lambda>j. at4 vc b j) (\<lambda>j. at4 vc b j)
               (mask_value (causal_mask ?T sp) t) (sp + ?T) c"
    by blast
  define blk' where "blk' = blk \<lparr> attention := ?att \<lparr> k_cache := kc, v_cache := vc \<rparr> \<rparr>"
  from add3_at [of a x] ash xsh(1)
  obtain x1 where x1: "add3 x a = Inr x1"
    and x1sh: "len3_0 x1 = ?B" "len3_1 x1 = ?T" "len3_2 x1 = ?D"
    and x1at: "\<And>b t c. b < ?B \<Longrightarrow> t < ?T \<Longrightarrow> c < ?D \<Longrightarrow> at3 x1 b t c = at3 x b t c + at3 a b t c"
    by auto
  from RMSNorm_forward_at [of "ffn_norm blk" x1] l(3) x1sh
  obtain xn2 where xn2: "RMSNorm_forward (ffn_norm blk) x1 = Inr xn2"
    and xn2sh: "len3_0 xn2 = ?B" "len3_1 xn2 = ?T" "len3_2 xn2 = ?D"
    and xn2at: "\<And>b t c. c < ?D \<Longrightarrow> at3 xn2 b t c = rms_vec (ffn_norm blk) ?D (at3 x1 b t) c"
    by auto
  let ?f = "FFN_forward (ffn blk) xn2"
  from add3_at [of ?f x1] x1sh xn2sh l(4)
  obtain y where y: "add3 x1 ?f = Inr y"
    and ysh: "len3_0 y = ?B" "len3_1 y = ?T" "len3_2 y = ?D"
    and yat: "\<And>b t c. b < ?B \<Longrightarrow> t < ?T \<Longrightarrow> c < ?D \<Longrightarrow> at3 y b t c = at3 x1 b t c + at3 ?f b t c"
    by (auto simp: FFN_forward_at)
  have run: "TransformerBlock_forward blk x sp (causal_mask ?T sp) fr = (Inr y, blk')"
    by (simp add: TransformerBlock_forward_def xn fw x1 Let_def blk'_def xn2 y)
  let ?a = "\<lambda>b t. contract_attention ?att
               (rotated (wq ?att) ?D ?hs (?xn b t) (at2 table (sp + t)))
               (\<lambda>j. at4 vc b j) (\<lambda>j. at4 vc b j)
               (mask_value (causal_mask ?T sp) t) (sp + ?T)"
  let ?x1 = "\<lambda>b t c. at3 x b t c + ?a b t c"
  have keys: "at4 kc b (sp + t) h d = rotated (wk ?att) ?D ?hs (?xn b t) (at2 table (sp + t)) h d"
    if "b < ?B" "t < ?T" "h < sa_n_kv_heads ?att" "d < ?hs" for b t h d
  proof -
    have "at4 kc b (sp + t) h d = rotated (wk ?att) ?D ?hs (at3 xn b t) (at2 table (sp + t)) h d"
      using written [OF that] by simp
    also have "\<dots> = rotated (wk ?att) ?D ?hs (?xn b t) (at2 table (sp + t)) h d"
      by (intro rotated_cong xnat refl)
    finally show ?thesis .
  qed
  have vals: "at4 vc b (sp + t) h d = lin_vec (wv ?att) ?D (?xn b t) (h * ?hs + d)"
    if "b < ?B" "t < ?T" "h < sa_n_kv_heads ?att" "d < ?hs" for b t h d
  proof -
    have "at4 vc b (sp + t) h d = lin_vec (wv ?att) ?D (at3 xn b t) (h * ?hs + d)"
      using written [OF that] by simp
    also have "\<dots> = lin_vec (wv ?att) ?D (?xn b t) (h * ?hs + d)"
      by (intro lin_vec_cong xnat)
    finally show ?thesis .
  qed
  have av: "at3 a b t c = ?a b t c" if "b < ?B" "t < ?T" for b t c
    unfolding aat [OF that]
    by (intro contract_attention_cong rotated_cong xnat refl)
  have out: "at3 y b t c = ?x1 b t c + ffn_vec (ffn blk) ?D (rms_vec (ffn_norm blk) ?D (?x1 b t)) c"
    if "b < ?B" "t < ?T" "c < ?D" for b t c
  proof -
    have a1: "at3 x1 b t i = ?x1 b t i" if "i < ?D" for i
      using x1at [OF \<open>b < ?B\<close> \<open>t < ?T\<close> that] av [OF \<open>b < ?B\<close> \<open>t < ?T\<close>] by simp
    have a2: "at3 xn2 b t i = rms_vec (ffn_norm blk) ?D (?x1 b t) i" if "i < ?D" for i
      unfolding xn2at [OF that] using a1 that by (intro rms_vec_cong) simp_all
    have "at3 y b t c = ?x1 b t c + ffn_vec (ffn blk) ?D (at3 xn2 b t) c"
      using yat [OF that] a1 [OF that(3)] xn2sh by (simp add: FFN_forward_at)
    also have "ffn_vec (ffn blk) ?D (at3 xn2 b t) c = ffn_vec (ffn blk) ?D (rms_vec (ffn_norm blk) ?D (?x1 b t)) c"
      using a2 by (intro ffn_vec_cong) simp
    finally show ?thesis .
  qed
  have con: "layer_follows_contract blk blk' x y sp table (causal_mask ?T sp)"
    unfolding layer_follows_contract_def Let_def blk'_def
    using keys vals ysh out xsh(1) by simp
  show ?thesis
    using run shp con unfolding blk'_def
    by (intro exI [of _ y] exI [of _ kc] exI [of _ vc]) simp
qed

lemma layer_follows_contract_shape:
  assumes "layer_follows_contract blk blk' x y sp table m"
  shows "len3_0 y = len3_0 x" "len3_1 y = len3_1 x" "len3_2 y = len3_2 x"
  using assms unfolding layer_follows_contract_def Let_def by blast+

lemma layers_call_contract:
  assumes "list_all (layer_ok args) ls" and cfg: "config_ok args"
    and xsh: "len3_2 x = dim' args" "0 < len3_0 x" "len3_0 x \<le> batch_size args"
      "0 < len3_1 x" "sp + len3_1 x \<le> seq_len args"
    and frs: "rows2 fr = len3_1 x" "cols2 fr = (dim' args div n_heads args) div 2"
    and fr: "\<And>t c. t < len3_1 x \<Longrightarrow> at2 fr t c = at2 table (sp + t) c"
  shows "\<exists>y ls' xs.
      run_layers ls x sp (causal_mask (len3_1 x) sp) fr = (Inr y, ls')
      \<and> list_all (layer_ok args) ls'
      \<and> layers_follow_contract ls ls' (x # xs) sp table (causal_mask (len3_1 x) sp)
      \<and> last (x # xs) = y
      \<and> len3_0 y = len3_0 x \<and> len3_1 y = len3_1 x \<and> len3_2 y = len3_2 x"
  using assms(1) xsh frs fr
proof (induction ls arbitrary: x)
  case Nil
  show ?case by (intro exI [of _ x] exI [of _ "[]"]) simp
next
  case (Cons blk ls)
  let ?T = "len3_1 x"
  from Cons.prems(1) have lo: "layer_ok args blk" and los: "list_all (layer_ok args) ls" by simp_all
  from block_call_contract [OF lo cfg Cons.prems(2-6) Cons.prems(7,8) Cons.prems(9)]
  obtain y1 kc vc where
    run1: "TransformerBlock_forward blk x sp (causal_mask ?T sp) fr
        = (Inr y1, blk \<lparr> attention := (attention blk) \<lparr> k_cache := kc, v_cache := vc \<rparr> \<rparr>)"
    and shp: "same_shape4 kc (k_cache (attention blk))" "same_shape4 vc (v_cache (attention blk))"
    and con: "layer_follows_contract blk (blk \<lparr> attention := (attention blk) \<lparr> k_cache := kc, v_cache := vc \<rparr> \<rparr>)
           x y1 sp table (causal_mask ?T sp)"
    by blast
  define blk' where "blk' = blk \<lparr> attention := (attention blk) \<lparr> k_cache := kc, v_cache := vc \<rparr> \<rparr>"
  note y1sh = layer_follows_contract_shape [OF con]
  have lo': "layer_ok args blk'" unfolding blk'_def by (rule layer_ok_caches [OF lo shp])
  have p2: "len3_2 y1 = dim' args" "0 < len3_0 y1" "len3_0 y1 \<le> batch_size args"
      "0 < len3_1 y1" "sp + len3_1 y1 \<le> seq_len args"
      "rows2 fr = len3_1 y1" "cols2 fr = (dim' args div n_heads args) div 2"
    using y1sh Cons.prems(2-8) by simp_all
  have fr2: "at2 fr t c = at2 table (sp + t) c" if "t < len3_1 y1" for t c
    using Cons.prems(9) that y1sh by simp
  from Cons.IH [OF los p2 fr2]
  obtain y ls' xs where
    run2: "run_layers ls y1 sp (causal_mask (len3_1 y1) sp) fr = (Inr y, ls')"
    and los': "list_all (layer_ok args) ls'"
    and chain: "layers_follow_contract ls ls' (y1 # xs) sp table (causal_mask (len3_1 y1) sp)"
    and lst: "last (y1 # xs) = y"
    and ysh: "len3_0 y = len3_0 y1" "len3_1 y = len3_1 y1" "len3_2 y = len3_2 y1"
    by blast
  have run: "run_layers (blk # ls) x sp (causal_mask ?T sp) fr = (Inr y, blk' # ls')"
    using run1 run2 y1sh by (simp add: blk'_def)
  have chain': "layers_follow_contract (blk # ls) (blk' # ls') (x # y1 # xs) sp table (causal_mask ?T sp)"
    using con chain y1sh by (simp add: blk'_def)
  show ?case
    using run lo' los' chain' lst ysh y1sh
    by (intro exI [of _ y] exI [of _ "blk' # ls'"] exI [of _ "y1 # xs"]) simp
qed

lemma layers_follow_contract_single:
  assumes "layers_follow_contract [blk] ls' xs sp table m"
  shows "\<exists>blk' x y. ls' = [blk'] \<and> xs = [x, y] \<and> layer_follows_contract blk blk' x y sp table m"
  using assms by (auto elim!: layers_follow_contract.elims)

text \<open>
  In the small model: the key of token 1, normalised and rotated by the rotation factor of
  position 1, which is the angle 1. A call at \<open>start_pos = 1\<close> on the tokens of the
  positions 1 and 2 leaves this value in the key cache at position 1.
\<close>

lemma ex_rotated_key_1:
  "rotated ex_id 2 2 (rms_vec (attn_norm ex_block) 2 (ex_id 1)) (at2 (freqs_table ex_model) 1) 0 0
     = - (sin 1 / sqrt (1 / 2 + 1 / 10 ^ 6))"
  "rotated ex_id 2 2 (rms_vec (attn_norm ex_block) 2 (ex_id 1)) (at2 (freqs_table ex_model) 1) 0 1
     = cos 1 / sqrt (1 / 2 + 1 / 10 ^ 6)"
  by (simp_all add: rotated_def rot_vec_def lin_vec_ex_id rms_vec_def ex_block_def ex_model_def
      ex_id_def lessThan_Suc numeral_2_eq_2 cis.ctr)

text \<open>
  C9. For a well-formed model and a call inside the capacity of the caches, whatever the
  caches hold: the call returns, and there are activations \<open>xs\<close>, the embedded tokens
  first, along which every layer follows the contract. The key cache of every layer
  holds, at the positions \<open>start_pos + t\<close>, the key projections rotated by the rows
  \<open>start_pos + t\<close> of the table of rotation factors; the attention of every layer is the one
  of the queries rotated by the same rows, with the causal mask that the model builds
  (nothing when \<open>T = 1\<close>) added to the scores before the softmax; the logits are the output
  projection of the normalised last activations. The model passes (mask, rotation
  factors) positionally to a layer whose parameters are (freqs, mask), and the layer
  passes (mask, freqs) positionally to an attention whose parameters are (freqs, mask):
  the two swaps cancel.
\<close>

theorem Transformer_forward_follows_contract:
  assumes tf: "Transformer_of args self" and cfg: "config_ok args"
    and sh: "0 < rows2 tokens" "rows2 tokens \<le> batch_size args"
      "0 < cols2 tokens" "start_pos + cols2 tokens \<le> seq_len args"
    and voc: "\<forall>b<rows2 tokens. \<forall>t<cols2 tokens. at2 tokens b t < vocab_size args"
  shows "case Transformer_forward self tokens start_pos of
           (Inl e, self') \<Rightarrow> False
         | (Inr logits, self') \<Rightarrow>
             (\<exists>xs. embedding (tok_embeddings self) (vocab_size args) (dim' args) tokens = Inr (hd xs)
                \<and> layers_follow_contract (layers self) (layers self') xs start_pos
                     (freqs_table self) (causal_mask (cols2 tokens) start_pos)
                \<and> len3_0 logits = rows2 tokens \<and> len3_1 logits = cols2 tokens
                \<and> len3_2 logits = vocab_size args
                \<and> (\<forall>b<rows2 tokens. \<forall>t<cols2 tokens. \<forall>v<vocab_size args.
                      at3 logits b t v
                        = lin_vec (out self) (dim' args)
                            (rms_vec (norm' self) (dim' args) (at3 (last xs) b t)) v))"
proof -
  let ?B = "rows2 tokens" and ?T = "cols2 tokens" and ?D = "dim' args"
  let ?table = "freqs_table self"
  from tf have t: "t_args self = args" "list_all (layer_ok args) (layers self)"
    "rms_dim (norm' self) = ?D" "rows2 ?table = seq_len args * 2"
    "cols2 ?table = (dim' args div n_heads args) div 2"
    unfolding Transformer_of_def by blast+
  define e where "e = \<lparr> len3_0 = ?B, len3_1 = ?T, len3_2 = ?D,
      at3 = (\<lambda>b t c. tok_embeddings self (at2 tokens b t) c) \<rparr>"
  have voc': "at2 tokens b t < vocab_size args" if "b < ?B" "t < ?T" for b t
    using voc that by blast
  have emb: "embedding (tok_embeddings self) (vocab_size args) ?D tokens = Inr e"
    unfolding e_def using voc' by (rule embedding_at)
  define fr where "fr = getitem_rows ?table start_pos (start_pos + ?T)"
  have rows: "start_pos + ?T \<le> rows2 ?table" using sh(4) t(4) by simp
  note g = getitem_rows_in_range [OF rows]
  have esh: "len3_2 e = ?D" "0 < len3_0 e" "len3_0 e \<le> batch_size args"
      "0 < len3_1 e" "start_pos + len3_1 e \<le> seq_len args"
    using sh by (simp_all add: e_def)
  have frs: "rows2 fr = len3_1 e" "cols2 fr = (dim' args div n_heads args) div 2"
    using g(1,2) t(5) by (simp_all add: fr_def e_def)
  have frat: "at2 fr tt c = at2 ?table (start_pos + tt) c" if "tt < len3_1 e" for tt c
    unfolding fr_def by (rule g(3))
  from layers_call_contract [OF t(2) cfg esh frs frat]
  obtain y1 ls' xs where
    run1: "run_layers (layers self) e start_pos (causal_mask (len3_1 e) start_pos) fr = (Inr y1, ls')"
    and chain: "layers_follow_contract (layers self) ls' (e # xs) start_pos ?table
        (causal_mask (len3_1 e) start_pos)"
    and lst: "last (e # xs) = y1"
    and y1sh: "len3_0 y1 = len3_0 e" "len3_1 y1 = len3_1 e" "len3_2 y1 = len3_2 e"
    by blast
  define self' where "self' = self \<lparr> layers := ls' \<rparr>"
  from RMSNorm_forward_at [of "norm' self" y1] t(3) y1sh esh(1)
  obtain yn where yn: "RMSNorm_forward (norm' self) y1 = Inr yn"
    and ynsh: "len3_0 yn = ?B" "len3_1 yn = ?T" "len3_2 yn = ?D"
    and ynat: "\<And>b tt c. c < ?D \<Longrightarrow> at3 yn b tt c = rms_vec (norm' self) ?D (at3 y1 b tt) c"
    by (auto simp: e_def)
  define y where "y = LazyLinear (out self) (vocab_size args) yn"
  have run: "Transformer_forward self tokens start_pos = (Inr y, self')"
    using emb run1 yn
    by (simp add: Transformer_forward_def fr_def e_def Let_def self'_def y_def t(1))
  have ysh: "len3_0 y = ?B" "len3_1 y = ?T" "len3_2 y = vocab_size args"
    using ynsh by (simp_all add: y_def LazyLinear_def)
  have out: "at3 y b tt v = lin_vec (out self) ?D (rms_vec (norm' self) ?D (at3 (last (e # xs)) b tt)) v"
    for b tt v
  proof -
    have "at3 y b tt v = lin_vec (out self) ?D (at3 yn b tt) v"
      using ynsh by (simp add: y_def LazyLinear_def lin_vec_def)
    also have "\<dots> = lin_vec (out self) ?D (rms_vec (norm' self) ?D (at3 y1 b tt)) v"
      by (intro lin_vec_cong ynat)
    finally show ?thesis unfolding lst .
  qed
  have chain': "layers_follow_contract (layers self) (layers self') (e # xs) start_pos ?table
        (causal_mask ?T start_pos)"
    using chain by (simp add: self'_def e_def)
  have "\<exists>xs. embedding (tok_embeddings self) (vocab_size args) (dim' args) tokens = Inr (hd xs)
                \<and> layers_follow_contract (layers self) (layers self') xs start_pos
                     (freqs_table self) (causal_mask (cols2 tokens) start_pos)
                \<and> len3_0 y = rows2 tokens \<and> len3_1 y = cols2 tokens
                \<and> len3_2 y = vocab_size args
                \<and> (\<forall>b<rows2 tokens. \<forall>t<cols2 tokens. \<forall>v<vocab_size args.
                      at3 y b t v
                        = lin_vec (out self) (dim' args)
                            (rms_vec (norm' self) (dim' args) (at3 (last xs) b t)) v)"
    using emb chain' ysh out by (intro exI [of _ "e # xs"]) simp
  then show ?thesis unfolding run by simp
qed

theorem Transformer_forward_follows_contract_witness:
  "Transformer_of ex_model_args ex_model \<and> config_ok ex_model_args
   \<and> 0 < rows2 (getitem_cols ex_tokens 1 3)
   \<and> rows2 (getitem_cols ex_tokens 1 3) \<le> batch_size ex_model_args
   \<and> 0 < cols2 (getitem_cols ex_tokens 1 3)
   \<and> 1 + cols2 (getitem_cols ex_tokens 1 3) \<le> seq_len ex_model_args
   \<and> at2 (getitem_cols ex_tokens 1 3) 0 0 < vocab_size ex_model_args
   \<and> at2 (getitem_cols ex_tokens 1 3) 0 1 < vocab_size ex_model_args
   \<and> (case Transformer_forward ex_model (getitem_cols ex_tokens 1 3) 1 of
         (Inl e, self') \<Rightarrow> False
       | (Inr logits, self') \<Rightarrow>
           (\<exists>xs. embedding ex_id 2 2 (getitem_cols ex_tokens 1 3) = Inr (hd xs)
              \<and> layers_follow_contract [ex_block] (layers self') xs 1
                   (freqs_table ex_model) (causal_mask 2 1)
              \<and> len3_0 logits = 1 \<and> len3_1 logits = 2 \<and> len3_2 logits = 2
              \<and> at3 logits 0 1 0
                   = lin_vec ex_id 2 (rms_vec (norm' ex_model) 2 (at3 (last xs) 0 1)) 0)
           \<and> (case layers self' of
                 [blk'] \<Rightarrow>
                   at4 (k_cache (attention blk')) 0 1 0 0 = - (sin 1 / sqrt (1 / 2 + 1 / 10 ^ 6))
                   \<and> at4 (k_cache (attention blk')) 0 1 0 1 = cos 1 / sqrt (1 / 2 + 1 / 10 ^ 6)
               | _ \<Rightarrow> False))"
proof -
  let ?x = "getitem_cols ex_tokens 1 3"
  have tf: "Transformer_of ex_model_args ex_model"
    using Transformer_init_of [OF ex_model_init] by simp
  have cfg: "config_ok ex_model_args" by (simp add: config_ok_def ex_model_args_def)
  have n: "rows2 ?x = 1" "cols2 ?x = 2" "vocab_size ex_model_args = 2" "dim' ex_model_args = 2"
    by (simp_all add: getitem_cols_def slice_len_def slice_lo_def ex_tokens_def ex_model_args_def)
  have sh: "0 < rows2 ?x" "rows2 ?x \<le> batch_size ex_model_args"
    "0 < cols2 ?x" "1 + cols2 ?x \<le> seq_len ex_model_args"
    unfolding n by (simp_all add: ex_model_args_def)
  have v2: "at2 ?x 0 0 < vocab_size ex_model_args" "at2 ?x 0 1 < vocab_size ex_model_args"
    by (simp_all add: getitem_cols_def slice_len_def slice_lo_def ex_tokens_def ex_model_args_def)
  have voc: "\<forall>b<rows2 ?x. \<forall>t<cols2 ?x. at2 ?x b t < vocab_size ex_model_args"
    unfolding n using v2 n by (auto simp: less_Suc_eq numeral_2_eq_2)
  have f: "tok_embeddings ex_model = ex_id" "layers ex_model = [ex_block]" "out ex_model = ex_id"
    by (simp_all add: ex_model_def)
  have tok: "at2 ?x 0 0 = 1"
    by (simp add: getitem_cols_def slice_len_def slice_lo_def ex_tokens_def)
  have emb: "embedding ex_id 2 2 ?x
      = Inr \<lparr> len3_0 = 1, len3_1 = 2, len3_2 = 2, at3 = (\<lambda>b t c. ex_id (at2 ?x b t) c) \<rparr>"
    using embedding_at [of ?x 2 ex_id 2] voc unfolding n by simp
  note t = Transformer_forward_follows_contract [OF tf cfg sh voc, unfolded n f]
  have "case Transformer_forward ex_model ?x 1 of
         (Inl e, self') \<Rightarrow> False
       | (Inr logits, self') \<Rightarrow>
           (\<exists>xs. embedding ex_id 2 2 ?x = Inr (hd xs)
              \<and> layers_follow_contract [ex_block] (layers self') xs 1
                   (freqs_table ex_model) (causal_mask 2 1)
              \<and> len3_0 logits = 1 \<and> len3_1 logits = 2 \<and> len3_2 logits = 2
              \<and> at3 logits 0 1 0
                   = lin_vec ex_id 2 (rms_vec (norm' ex_model) 2 (at3 (last xs) 0 1)) 0)
           \<and> (case layers self' of
                 [blk'] \<Rightarrow>
                   at4 (k_cache (attention blk')) 0 1 0 0 = - (sin 1 / sqrt (1 / 2 + 1 / 10 ^ 6))
                   \<and> at4 (k_cache (attention blk')) 0 1 0 1 = cos 1 / sqrt (1 / 2 + 1 / 10 ^ 6)
               | _ \<Rightarrow> False)"
  proof (cases "Transformer_forward ex_model ?x 1")
    case (Pair r s)
    show ?thesis
    proof (cases r)
      case (Inl e)
      with t Pair show ?thesis by simp
    next
      case (Inr logits)
      with t Pair obtain xs where
        e: "embedding ex_id 2 2 ?x = Inr (hd xs)"
        and chain: "layers_follow_contract [ex_block] (layers s) xs 1 (freqs_table ex_model) (causal_mask 2 1)"
        and lsh: "len3_0 logits = 1" "len3_1 logits = 2" "len3_2 logits = 2"
        and lat: "\<forall>b<1. \<forall>t<2. \<forall>v<2. at3 logits b t v
            = lin_vec ex_id 2 (rms_vec (norm' ex_model) 2 (at3 (last xs) b t)) v"
        by auto
      from layers_follow_contract_single [OF chain]
      obtain blk' x y where l: "layers s = [blk']" and xs: "xs = [x, y]"
        and con: "layer_follows_contract ex_block blk' x y 1 (freqs_table ex_model) (causal_mask 2 1)"
        by blast
      from e emb xs have x: "x = \<lparr> len3_0 = 1, len3_1 = 2, len3_2 = 2,
          at3 = (\<lambda>b t c. ex_id (at2 ?x b t) c) \<rparr>"
        by simp
      have x0: "at3 x 0 0 = ex_id 1" unfolding x using tok by simp
      have a: "wk (attention ex_block) = ex_id" "h_size (attention ex_block) = 2"
        "sa_n_kv_heads (attention ex_block) = 1"
        by (simp_all add: ex_block_def)
      from con have keys: "\<forall>b<1. \<forall>t<2. \<forall>h<1. \<forall>d<2.
          at4 (k_cache (attention blk')) b (1 + t) h d
            = rotated ex_id 2 2 (rms_vec (attn_norm ex_block) 2 (at3 x b t))
                (at2 (freqs_table ex_model) (1 + t)) h d"
        unfolding layer_follows_contract_def Let_def a by (simp add: x)
      from keys have "at4 (k_cache (attention blk')) 0 (1 + 0) 0 0
            = rotated ex_id 2 2 (rms_vec (attn_norm ex_block) 2 (at3 x 0 0))
                (at2 (freqs_table ex_model) (1 + 0)) 0 0"
        and "at4 (k_cache (attention blk')) 0 (1 + 0) 0 1
            = rotated ex_id 2 2 (rms_vec (attn_norm ex_block) 2 (at3 x 0 0))
                (at2 (freqs_table ex_model) (1 + 0)) 0 1"
        by simp_all
      then have k: "at4 (k_cache (attention blk')) 0 1 0 0 = - (sin 1 / sqrt (1 / 2 + 1 / 10 ^ 6))"
        "at4 (k_cache (attention blk')) 0 1 0 1 = cos 1 / sqrt (1 / 2 + 1 / 10 ^ 6)"
        unfolding x0 add_0_right ex_rotated_key_1 by simp_all
      have ex: "\<exists>xs. embedding ex_id 2 2 ?x = Inr (hd xs)
              \<and> layers_follow_contract [ex_block] (layers s) xs 1
                   (freqs_table ex_model) (causal_mask 2 1)
              \<and> len3_0 logits = 1 \<and> len3_1 logits = 2 \<and> len3_2 logits = 2
              \<and> at3 logits 0 1 0
                   = lin_vec ex_id 2 (rms_vec (norm' ex_model) 2 (at3 (last xs) 0 1)) 0"
        using e chain lsh lat by (intro exI [of _ xs]) simp
      show ?thesis unfolding Pair Inr using ex k l by simp
    qed
  qed
  with tf cfg sh v2 show ?thesis by blast
qed

section \<open>Incremental decoding computes what one full call computes\<close>

lemma getitem_cols_in_range:
  assumes "lo + n \<le> cols2 t"
  shows "rows2 (getitem_cols t lo (lo + n)) = rows2 t" "cols2 (getitem_cols t lo (lo + n)) = n"
    "at2 (getitem_cols t lo (lo + n)) i j = at2 t i (lo + j)"
  using assms by (simp_all add: getitem_cols_def slice_len_def slice_lo_def)

lemma decode_steps_ref:
  assumes "Transformer_of args self" and cfg: "config_ok args"
    and sh: "0 < rows2 tokens" "rows2 tokens \<le> batch_size args"
      "pos + n \<le> cols2 tokens" "cols2 tokens \<le> seq_len args"
    and voc: "\<And>b p. b < rows2 tokens \<Longrightarrow> p < cols2 tokens \<Longrightarrow> at2 tokens b p < vocab_size args"
    and inv: "caches_hold (layers self) (freqs_table self) (emb_ref self tokens) (rows2 tokens) pos"
  shows "length (fst (decode_steps self tokens pos n)) = n
    \<and> (\<forall>i<n. \<exists>y. fst (decode_steps self tokens pos n) ! i = Inr y
          \<and> len3_0 y = rows2 tokens \<and> len3_1 y = 1 \<and> len3_2 y = vocab_size args
          \<and> (\<forall>b v. b < rows2 tokens \<longrightarrow> at3 y b 0 v = logits_ref self tokens b (pos + i) v))"
  using assms(1) sh(3) inv
proof (induction n arbitrary: self pos)
  case 0
  then show ?case by simp
next
  case (Suc n)
  let ?x = "getitem_cols tokens pos (pos + 1)"
  have le: "pos + 1 \<le> cols2 tokens" using Suc.prems(2) by simp
  note g = getitem_cols_in_range [OF le]
  have xsh: "0 < rows2 ?x" "rows2 ?x \<le> batch_size args" "0 < cols2 ?x" "pos + cols2 ?x \<le> seq_len args"
    unfolding g using sh(1,2,4) le by simp_all
  have xvoc: "at2 ?x b t < vocab_size args" if "b < rows2 ?x" "t < cols2 ?x" for b t
    using that voc [of b "pos + t"] le unfolding g by simp
  have xs: "at2 ?x b t = at2 tokens b (pos + t)" if "b < rows2 ?x" "t < cols2 ?x" for b t
    unfolding g ..
  have inv': "caches_hold (layers self) (freqs_table self) (emb_ref self tokens) (rows2 ?x) pos"
    unfolding g using Suc.prems(3) .
  from model_chunk_ref [OF Suc.prems(1) cfg xsh xvoc xs inv', unfolded g]
  obtain y ls' where run: "Transformer_forward self ?x pos = (Inr y, self \<lparr> layers := ls' \<rparr>)"
    and tf': "Transformer_of args (self \<lparr> layers := ls' \<rparr>)"
    and lg: "logits_ref (self \<lparr> layers := ls' \<rparr>) = logits_ref self"
    and hold: "caches_hold ls' (freqs_table self) (emb_ref self tokens) (rows2 tokens) (pos + 1)"
    and ysh: "len3_0 y = rows2 tokens" "len3_1 y = 1" "len3_2 y = vocab_size args"
    and yat: "\<And>b v. b < rows2 tokens \<Longrightarrow> at3 y b 0 v = logits_ref self tokens b pos v"
    by auto
  let ?s = "self \<lparr> layers := ls' \<rparr>"
  have inv2: "caches_hold (layers ?s) (freqs_table ?s) (emb_ref ?s tokens) (rows2 tokens) (pos + 1)"
    using hold by simp
  have le2: "pos + 1 + n \<le> cols2 tokens" using Suc.prems(2) by simp
  note ih = Suc.IH [OF tf' le2 inv2, unfolded lg]
  obtain rs s2 where d: "decode_steps ?s tokens (pos + 1) n = (rs, s2)"
    by (cases "decode_steps ?s tokens (pos + 1) n")
  have ds: "fst (decode_steps self tokens pos (Suc n)) = Inr y # rs"
    using run d by simp
  from ih d have len: "length rs = n"
    and rest: "\<And>i. i < n \<Longrightarrow> \<exists>y. rs ! i = Inr y
          \<and> len3_0 y = rows2 tokens \<and> len3_1 y = 1 \<and> len3_2 y = vocab_size args
          \<and> (\<forall>b v. b < rows2 tokens \<longrightarrow> at3 y b 0 v = logits_ref self tokens b (pos + 1 + i) v)"
    by simp_all
  show ?case
    unfolding ds
  proof (intro conjI allI impI)
    show "length (Inr y # rs) = Suc n" using len by simp
  next
    fix i assume i: "i < Suc n"
    show "\<exists>ya. (Inr y # rs) ! i = Inr ya
          \<and> len3_0 ya = rows2 tokens \<and> len3_1 ya = 1 \<and> len3_2 ya = vocab_size args
          \<and> (\<forall>b v. b < rows2 tokens \<longrightarrow> at3 ya b 0 v = logits_ref self tokens b (pos + i) v)"
    proof (cases i)
      case 0
      then show ?thesis using ysh yat by simp
    next
      case (Suc j)
      with i have "j < n" by simp
      from rest [OF this] Suc show ?thesis by simp
    qed
  qed
qed

lemma refill_ok: "layer_ok args blk \<Longrightarrow> layer_ok args (refill blk kc vc)"
  unfolding refill_def by (rule layer_ok_caches) (simp_all add: same_shape4_def)

lemma block_ref_refill: "block_ref (refill blk kc vc) = block_ref blk"
  unfolding refill_def by simp

lemma refill_layers_ok:
  "list_all (layer_ok args) ls \<Longrightarrow> list_all (layer_ok args) (refill_layers ls cs)"
  by (induction ls cs rule: refill_layers.induct) (simp_all add: refill_ok)

lemma layers_ref_refill: "layers_ref (refill_layers ls cs) table X = layers_ref ls table X"
  by (induction ls cs arbitrary: X rule: refill_layers.induct) (simp_all add: block_ref_refill)

lemma with_cache_contents_of:
  "Transformer_of args self \<Longrightarrow> Transformer_of args (with_cache_contents self cs)"
  by (simp add: Transformer_of_def with_cache_contents_def refill_layers_ok)

lemma logits_ref_with_cache_contents:
  "logits_ref (with_cache_contents self cs) = logits_ref self"
  by (simp add: fun_eq_iff logits_ref_def with_cache_contents_def layers_ref_refill)

lemma with_cache_contents_Nil [simp]: "with_cache_contents self [] = self"
  by (simp add: with_cache_contents_def)

text \<open>
  The small model attends to what is cached. For the tokens 0, 1, 0 the logit of channel
  1 at position 2 is positive, and for the tokens 0, 0, 0 it is zero: with the same token
  at position 2, it depends on the token of position 1, which a single-token call at
  position 2 knows from the cache only.
\<close>

lemma rms_vec_pos:
  assumes "0 < u c" "0 < rms_w nm c" "0 < rms_eps nm"
  shows "0 < rms_vec nm n u c"
proof -
  have "0 \<le> (\<Sum>i<n. (u i)\<^sup>2) / real n" by (simp add: sum_nonneg)
  with assms(3) have "0 < sqrt ((\<Sum>i<n. (u i)\<^sup>2) / real n + rms_eps nm)" by simp
  with assms(1,2) show ?thesis unfolding rms_vec_def by simp
qed

lemma rms_vec_zero: "u c = 0 \<Longrightarrow> rms_vec nm n u c = 0"
  by (simp add: rms_vec_def)

lemma silu_mult_nonneg: "0 \<le> silu u * u"
proof -
  have "silu u * u = u * u * (1 / (1 + exp (- u)))" by (simp add: silu_def)
  moreover have "0 < 1 + exp (- u)" by (simp add: add_pos_pos)
  ultimately show ?thesis by simp
qed

lemma ex_logit_from_cache:
  "0 < logits_ref ex_model ex_tokens 0 2 1"
proof -
  let ?att = "attention ex_block" and ?table = "freqs_table ex_model"
  let ?E = "emb_ref ex_model ex_tokens 0"
  let ?Xn = "\<lambda>p. rms_vec (attn_norm ex_block) 2 (?E p)"
  let ?Q = "q_ref ?att ?table ?Xn 2" and ?V = "v_ref ?att ?Xn"
  have f: "sa_dim ?att = 2" "h_size ?att = 2" "n_q_heads ?att = 1" "wv ?att = ex_id" "wo ?att = ex_id"
    "rms_w (attn_norm ex_block) = (\<lambda>c. 1)" "rms_eps (attn_norm ex_block) = 1 / 10 ^ 6"
    "rms_w (ffn_norm ex_block) = (\<lambda>c. 1)" "rms_eps (ffn_norm ex_block) = 1 / 10 ^ 6"
    "hidden_dim (ffn ex_block) = 5" "w1 (ffn ex_block) = ex_id" "w2 (ffn ex_block) = ex_id"
    "w3 (ffn ex_block) = ex_id"
    by (simp_all add: ex_block_def)
  have g: "out ex_model = ex_id" "dim' (t_args ex_model) = 2" "layers ex_model = [ex_block]"
    "rms_w (norm' ex_model) = (\<lambda>c. 1)" "rms_eps (norm' ex_model) = 1 / 10 ^ 5"
    by (simp_all add: ex_model_def ex_model_args_def)
  have kv: "kv_head ?att 0 = 0" by (simp add: kv_head_def ex_block_def)
  have E: "?E p c = (if p mod 2 = c then 1 else 0)" for p c
    by (simp add: emb_ref_def ex_model_def ex_tokens_def ex_id_def)
  have V: "?V j 0 1 = ?Xn j 1" for j
    by (simp add: v_ref_def f lin_vec_ex_id)
  have V0: "?V 0 0 1 = 0" and V2: "?V 2 0 1 = 0"
    unfolding V by (rule rms_vec_zero, simp add: E)+
  have V1: "0 < ?V 1 0 1"
    unfolding V by (rule rms_vec_pos) (simp_all add: E f)
  let ?s = "attend_score ?att ?Q ?V 0"
  have Z: "0 < (\<Sum>j'<2 + 1. exp (?s j'))" by (intro sum_pos) (simp_all add: lessThan_empty_iff)
  have s3: "(\<Sum>j<2 + 1. F j) = F 0 + F 1 + F 2" for F :: "nat \<Rightarrow> real"
    by (simp add: eval_nat_numeral lessThan_Suc)
  have ctx: "attend_ctx ?att ?Q ?V 2 0 1 = exp (?s 1) / (\<Sum>j'<2 + 1. exp (?s j')) * ?V 1 0 1"
    unfolding attend_ctx_def kv s3 [of "\<lambda>j. exp (?s j) / (\<Sum>j'<2 + 1. exp (?s j')) * ?V j 0 1"] V0 V2
    by simp
  have cpos: "0 < attend_ctx ?att ?Q ?V 2 0 1"
    unfolding ctx using Z V1 by (intro mult_pos_pos divide_pos_pos exp_gt_zero)
  have a: "attn_ref ?att ?table ?Xn 2 1 = attend_ctx ?att ?Q ?V 2 0 1"
    by (simp add: attn_ref_def attend_out_def f lin_vec_ex_id)
  let ?x1 = "\<lambda>c. ?E 2 c + attn_ref ?att ?table ?Xn 2 c"
  have x1: "0 < ?x1 1" unfolding a using cpos by (simp add: E)
  let ?u = "rms_vec (ffn_norm ex_block) 2 ?x1"
  have ffn: "ffn_vec (ffn ex_block) 2 ?u 1 = silu (?u 1) * ?u 1"
    by (simp add: ffn_vec_def f lin_vec_ex_id)
  have y: "0 < block_ref ex_block ?table ?E 2 1"
    unfolding block_ref_def Let_def f ffn
    using x1 silu_mult_nonneg [of "?u 1"] by (simp add: add_pos_nonneg)
  have "logits_ref ex_model ex_tokens 0 2 1
      = rms_vec (norm' ex_model) 2 (block_ref ex_block ?table ?E 2) 1"
    by (simp add: logits_ref_def g lin_vec_ex_id)
  also have "0 < \<dots>"
  proof (rule rms_vec_pos)
    show "0 < block_ref ex_block ?table ?E 2 1" by (rule y)
  qed (simp_all add: g)
  finally show ?thesis .
qed

lemma ex_logit_without_cache:
  "logits_ref ex_model (ex_tokens \<lparr> at2 := (\<lambda>b t. 0) \<rparr>) 0 2 1 = 0"
proof -
  let ?att = "attention ex_block" and ?table = "freqs_table ex_model"
  let ?E = "emb_ref ex_model (ex_tokens \<lparr> at2 := (\<lambda>b t. 0) \<rparr>) 0"
  let ?Xn = "\<lambda>p. rms_vec (attn_norm ex_block) 2 (?E p)"
  let ?Q = "q_ref ?att ?table ?Xn 2" and ?V = "v_ref ?att ?Xn"
  have f: "sa_dim ?att = 2" "h_size ?att = 2" "n_q_heads ?att = 1" "wv ?att = ex_id" "wo ?att = ex_id"
    "hidden_dim (ffn ex_block) = 5" "w1 (ffn ex_block) = ex_id" "w2 (ffn ex_block) = ex_id"
    "w3 (ffn ex_block) = ex_id"
    by (simp_all add: ex_block_def)
  have g: "out ex_model = ex_id" "dim' (t_args ex_model) = 2" "layers ex_model = [ex_block]"
    by (simp_all add: ex_model_def ex_model_args_def)
  have kv: "kv_head ?att 0 = 0" by (simp add: kv_head_def ex_block_def)
  have E: "?E p 1 = 0" for p
    by (simp add: emb_ref_def ex_model_def ex_id_def)
  have Xn: "?Xn j 1 = 0" for j by (rule rms_vec_zero [of "?E j" 1, OF E])
  have V': "?V j 0 1 = ?Xn j 1" for j
    by (simp add: v_ref_def f lin_vec_ex_id)
  have V: "?V j 0 1 = 0" for j
    unfolding V' by (rule Xn)
  have ctx: "attend_ctx ?att ?Q ?V 2 0 1 = 0"
    unfolding attend_ctx_def kv V by simp
  have a': "attn_ref ?att ?table ?Xn 2 1 = attend_ctx ?att ?Q ?V 2 0 1"
    by (simp add: attn_ref_def attend_out_def f lin_vec_ex_id)
  have a: "attn_ref ?att ?table ?Xn 2 1 = 0"
    unfolding a' by (rule ctx)
  let ?x1 = "\<lambda>c. ?E 2 c + attn_ref ?att ?table ?Xn 2 c"
  have x1: "?x1 1 = 0" unfolding a E by simp
  let ?u = "rms_vec (ffn_norm ex_block) 2 ?x1"
  have u: "?u 1 = 0" by (rule rms_vec_zero [of ?x1 1, OF x1])
  have ffn': "ffn_vec (ffn ex_block) 2 ?u 1 = silu (?u 1) * ?u 1"
    by (simp add: ffn_vec_def f lin_vec_ex_id)
  have ffn: "ffn_vec (ffn ex_block) 2 ?u 1 = 0"
    unfolding ffn' u by simp
  have y: "block_ref ex_block ?table ?E 2 1 = 0"
    unfolding block_ref_def Let_def f ffn x1 by simp
  have "logits_ref ex_model (ex_tokens \<lparr> at2 := (\<lambda>b t. 0) \<rparr>) 0 2 1
      = rms_vec (norm' ex_model) 2 (block_ref ex_block ?table ?E 2) 1"
    by (simp add: logits_ref_def g lin_vec_ex_id)
  also have "\<dots> = 0" by (rule rms_vec_zero [of "block_ref ex_block ?table ?E 2" 1, OF y])
  finally show ?thesis .
qed

lemma full_forward_ref:
  assumes tf: "Transformer_of args self" and cfg: "config_ok args"
    and sh: "0 < rows2 tokens" "rows2 tokens \<le> batch_size args"
      "0 < cols2 tokens" "cols2 tokens \<le> seq_len args"
    and voc: "\<forall>b<rows2 tokens. \<forall>p<cols2 tokens. at2 tokens b p < vocab_size args"
  shows "\<exists>y. fst (Transformer_forward self tokens 0) = Inr y
    \<and> (\<forall>b t v. b < rows2 tokens \<and> t < cols2 tokens \<longrightarrow> at3 y b t v = logits_ref self tokens b t v)"
proof -
  have voc': "at2 tokens b p < vocab_size args" if "b < rows2 tokens" "p < cols2 tokens" for b p
    using voc that by blast
  have fsh: "0 + cols2 tokens \<le> seq_len args" using sh by simp
  have fxs: "at2 tokens b t = at2 tokens b (0 + t)" for b t by simp
  note r0 = model_chunk_ref [OF tf cfg sh(1,2,3) fsh voc' fxs caches_hold_0, unfolded add_0]
  from r0 obtain y ls where "Transformer_forward self tokens 0 = (Inr y, self \<lparr> layers := ls \<rparr>)"
    and "\<And>b t v. b < rows2 tokens \<Longrightarrow> t < cols2 tokens \<Longrightarrow> at3 y b t v = logits_ref self tokens b t v"
    by blast
  then show ?thesis by (intro exI [of _ y]) simp
qed

lemma ex_logit_depends_on_position_1:
  "(case fst (Transformer_forward ex_model ex_tokens 0) of
      Inr full \<Rightarrow> 0 < at3 full 0 2 1 | Inl e \<Rightarrow> False)
   \<and> (case fst (Transformer_forward ex_model (ex_tokens \<lparr> at2 := (\<lambda>b t. 0) \<rparr>) 0) of
        Inr full \<Rightarrow> at3 full 0 2 1 = 0 | Inl e \<Rightarrow> False)"
proof -
  have tf: "Transformer_of ex_model_args ex_model"
    using Transformer_init_of [OF ex_model_init] by simp
  have cfg: "config_ok ex_model_args" by (simp add: config_ok_def ex_model_args_def)
  have 1: "case fst (Transformer_forward ex_model ex_tokens 0) of
      Inr full \<Rightarrow> 0 < at3 full 0 2 1 | Inl e \<Rightarrow> False"
    using full_forward_ref [OF tf cfg, of ex_tokens] ex_logit_from_cache
    by (auto simp: ex_tokens_def ex_model_args_def)
  have 2: "case fst (Transformer_forward ex_model (ex_tokens \<lparr> at2 := (\<lambda>b t. 0) \<rparr>) 0) of
        Inr full \<Rightarrow> at3 full 0 2 1 = 0 | Inl e \<Rightarrow> False"
    using full_forward_ref [OF tf cfg, of "ex_tokens \<lparr> at2 := (\<lambda>b t. 0) \<rparr>"] ex_logit_without_cache
    by (auto simp: ex_tokens_def ex_model_args_def)
  from 1 2 show ?thesis by simp
qed

text \<open>
  C1. For a well-formed model, a batch that fits, \<open>1 \<le> T \<le> N \<le> seq_len\<close> and tokens
  of the vocabulary, whatever the caches hold before (\<open>c0\<close> in the module of the full
  call, \<open>c1\<close> in the module of the session): the call on the whole sequence returns, the
  call on the first \<open>T\<close> tokens returns the same logits at the positions below \<open>T\<close>, and
  the \<open>N - T\<close> single-token calls that follow each return the logits of the full call at
  their position. The equality is exact in real arithmetic.
\<close>

theorem incremental_decode_matches_full_forward:
  assumes tf: "Transformer_of args self" and cfg: "config_ok args"
    and sh: "0 < rows2 tokens" "rows2 tokens \<le> batch_size args"
      "0 < T" "T \<le> cols2 tokens" "cols2 tokens \<le> seq_len args"
    and voc: "\<forall>b<rows2 tokens. \<forall>p<cols2 tokens. at2 tokens b p < vocab_size args"
  shows "case (fst (Transformer_forward (with_cache_contents self c0) tokens 0),
               incremental (with_cache_contents self c1) tokens T) of
           (Inr full, Inr pre, steps) \<Rightarrow>
             len3_0 full = rows2 tokens \<and> len3_1 full = cols2 tokens \<and> len3_2 full = vocab_size args
             \<and> len3_0 pre = rows2 tokens \<and> len3_1 pre = T \<and> len3_2 pre = vocab_size args
             \<and> (\<forall>b<rows2 tokens. \<forall>t<T. \<forall>v<vocab_size args. at3 pre b t v = at3 full b t v)
             \<and> length steps = cols2 tokens - T
             \<and> (\<forall>i<cols2 tokens - T.
                   case steps ! i of
                     Inl e \<Rightarrow> False
                   | Inr step \<Rightarrow>
                       len3_0 step = rows2 tokens \<and> len3_1 step = 1 \<and> len3_2 step = vocab_size args
                       \<and> (\<forall>b<rows2 tokens. \<forall>v<vocab_size args.
                             at3 step b 0 v = at3 full b (T + i) v))
         | _ \<Rightarrow> False"
proof -
  let ?B = "rows2 tokens" and ?N = "cols2 tokens" and ?V = "vocab_size args"
  define s0 where "s0 = with_cache_contents self c0"
  define s1 where "s1 = with_cache_contents self c1"
  have tf0: "Transformer_of args s0" and tf1: "Transformer_of args s1"
    unfolding s0_def s1_def by (rule with_cache_contents_of [OF tf])+
  have lg0: "logits_ref s0 = logits_ref self" and lg1: "logits_ref s1 = logits_ref self"
    unfolding s0_def s1_def by (rule logits_ref_with_cache_contents)+
  have voc': "at2 tokens b p < ?V" if "b < ?B" "p < ?N" for b p
    using voc that by blast
  \<comment> \<open>the whole sequence in one call\<close>
  have fsh: "0 < rows2 tokens" "rows2 tokens \<le> batch_size args" "0 < cols2 tokens"
      "0 + cols2 tokens \<le> seq_len args"
    using sh by simp_all
  have fxs: "at2 tokens b t = at2 tokens b (0 + t)" for b t by simp
  note r0 = model_chunk_ref [OF tf0 cfg fsh voc' fxs caches_hold_0, unfolded add_0 lg0]
  from r0
  obtain full ls0 where full: "Transformer_forward s0 tokens 0 = (Inr full, s0 \<lparr> layers := ls0 \<rparr>)"
    and fullsh: "len3_0 full = ?B" "len3_1 full = ?N" "len3_2 full = ?V"
    and fullat: "\<And>b t v. b < ?B \<Longrightarrow> t < ?N \<Longrightarrow> at3 full b t v = logits_ref self tokens b t v"
    by blast
  \<comment> \<open>the prompt\<close>
  let ?x = "getitem_cols tokens 0 T"
  have le: "0 + T \<le> ?N" using sh(4) by simp
  note g = getitem_cols_in_range [OF le, unfolded add_0]
  have xsh: "0 < rows2 ?x" "rows2 ?x \<le> batch_size args" "0 < cols2 ?x" "0 + cols2 ?x \<le> seq_len args"
    unfolding g using sh by simp_all
  have xvoc: "at2 ?x b t < ?V" if "b < rows2 ?x" "t < cols2 ?x" for b t
    using that voc' [of b t] sh(4) unfolding g by simp
  have xs: "at2 ?x b t = at2 tokens b (0 + t)" if "b < rows2 ?x" "t < cols2 ?x" for b t
    unfolding g by simp
  note r1 = model_chunk_ref [OF tf1 cfg xsh xvoc xs caches_hold_0, unfolded g add_0 lg1]
  from r1
  obtain pre ls1 where pre: "Transformer_forward s1 ?x 0 = (Inr pre, s1 \<lparr> layers := ls1 \<rparr>)"
    and tf2: "Transformer_of args (s1 \<lparr> layers := ls1 \<rparr>)"
    and lg2: "logits_ref (s1 \<lparr> layers := ls1 \<rparr>) = logits_ref self"
    and hold1: "caches_hold ls1 (freqs_table s1) (emb_ref s1 tokens) ?B T"
    and presh: "len3_0 pre = ?B" "len3_1 pre = T" "len3_2 pre = ?V"
    and preat: "\<And>b t v. b < ?B \<Longrightarrow> t < T \<Longrightarrow> at3 pre b t v = logits_ref self tokens b t v"
    by blast
  \<comment> \<open>the single-token calls\<close>
  let ?s = "s1 \<lparr> layers := ls1 \<rparr>"
  define steps where "steps = fst (decode_steps ?s tokens T (?N - T))"
  have inv1: "caches_hold (layers ?s) (freqs_table ?s) (emb_ref ?s tokens) ?B T"
    using hold1 by simp
  have le2: "T + (?N - T) \<le> ?N" using sh(4) by simp
  from decode_steps_ref [OF tf2 cfg sh(1,2) le2 sh(5) voc' inv1, unfolded lg2, folded steps_def]
  have len: "length steps = ?N - T"
    and st: "\<And>i. i < ?N - T \<Longrightarrow> \<exists>y. steps ! i = Inr y
          \<and> len3_0 y = ?B \<and> len3_1 y = 1 \<and> len3_2 y = ?V
          \<and> (\<forall>b v. b < ?B \<longrightarrow> at3 y b 0 v = logits_ref self tokens b (T + i) v)"
    by blast+
  have inc: "incremental s1 tokens T = (Inr pre, steps)"
    by (simp add: incremental_def pre steps_def)
  have a: "\<forall>b<?B. \<forall>t<T. \<forall>v<?V. at3 pre b t v = at3 full b t v"
    using preat fullat sh(4) by simp
  have b: "\<forall>i<?N - T.
                   case steps ! i of
                     Inl e \<Rightarrow> False
                   | Inr step \<Rightarrow>
                       len3_0 step = ?B \<and> len3_1 step = 1 \<and> len3_2 step = ?V
                       \<and> (\<forall>b<?B. \<forall>v<?V. at3 step b 0 v = at3 full b (T + i) v)"
  proof (intro allI impI)
    fix i assume i: "i < ?N - T"
    from st [OF i] obtain y where y: "steps ! i = Inr y"
      "len3_0 y = ?B" "len3_1 y = 1" "len3_2 y = ?V"
      "\<And>b v. b < ?B \<Longrightarrow> at3 y b 0 v = logits_ref self tokens b (T + i) v"
      by blast
    from i have "T + i < ?N" by simp
    with y fullat show "case steps ! i of
                     Inl e \<Rightarrow> False
                   | Inr step \<Rightarrow>
                       len3_0 step = ?B \<and> len3_1 step = 1 \<and> len3_2 step = ?V
                       \<and> (\<forall>b<?B. \<forall>v<?V. at3 step b 0 v = at3 full b (T + i) v)"
      by simp
  qed
  show ?thesis
    unfolding s0_def [symmetric] s1_def [symmetric] full inc using fullsh presh a len b by simp
qed

theorem incremental_decode_matches_full_forward_witness:
  "Transformer_of ex_model_args ex_model \<and> config_ok ex_model_args
   \<and> 0 < rows2 ex_tokens \<and> rows2 ex_tokens \<le> batch_size ex_model_args
   \<and> (0::nat) < 2 \<and> 2 \<le> cols2 ex_tokens \<and> cols2 ex_tokens \<le> seq_len ex_model_args
   \<and> at2 ex_tokens 0 0 < vocab_size ex_model_args \<and> at2 ex_tokens 0 1 < vocab_size ex_model_args
   \<and> at2 ex_tokens 0 2 < vocab_size ex_model_args
   \<and> (case (fst (Transformer_forward ex_model ex_tokens 0),
             incremental (with_cache_contents ex_model ex_stale) ex_tokens 2) of
         (Inr full, Inr pre, steps) \<Rightarrow>
           at3 pre 0 0 0 = at3 full 0 0 0 \<and> at3 pre 0 0 1 = at3 full 0 0 1
           \<and> at3 pre 0 1 0 = at3 full 0 1 0 \<and> at3 pre 0 1 1 = at3 full 0 1 1
           \<and> length steps = 1
           \<and> (case steps ! 0 of
                 Inl e \<Rightarrow> False
               | Inr step \<Rightarrow> at3 step 0 0 0 = at3 full 0 2 0 \<and> at3 step 0 0 1 = at3 full 0 2 1
                   \<and> 0 < at3 step 0 0 1)
       | _ \<Rightarrow> False)"
proof -
  have tf: "Transformer_of ex_model_args ex_model"
    using Transformer_init_of [OF ex_model_init] by simp
  have cfg: "config_ok ex_model_args" by (simp add: config_ok_def ex_model_args_def)
  have sh: "0 < rows2 ex_tokens" "rows2 ex_tokens \<le> batch_size ex_model_args"
    "(0::nat) < 2" "2 \<le> cols2 ex_tokens" "cols2 ex_tokens \<le> seq_len ex_model_args"
    by (simp_all add: ex_tokens_def ex_model_args_def)
  have v3: "at2 ex_tokens 0 0 < vocab_size ex_model_args" "at2 ex_tokens 0 1 < vocab_size ex_model_args"
    "at2 ex_tokens 0 2 < vocab_size ex_model_args"
    by (simp_all add: ex_tokens_def ex_model_args_def)
  have voc: "\<forall>b<rows2 ex_tokens. \<forall>p<cols2 ex_tokens. at2 ex_tokens b p < vocab_size ex_model_args"
    by (simp add: ex_tokens_def ex_model_args_def)
  have n: "rows2 ex_tokens = 1" "cols2 ex_tokens = 3" "vocab_size ex_model_args = 2"
    by (simp_all add: ex_tokens_def ex_model_args_def)
  note t = incremental_decode_matches_full_forward [OF tf cfg sh voc, of "[]" ex_stale, unfolded with_cache_contents_Nil]
  obtain r steps where inc: "incremental (with_cache_contents ex_model ex_stale) ex_tokens 2 = (r, steps)"
    by (cases "incremental (with_cache_contents ex_model ex_stale) ex_tokens 2")
  from t inc obtain full pre where
    full: "fst (Transformer_forward ex_model ex_tokens 0) = Inr full" and pre: "r = Inr pre"
    and eq: "\<forall>b<rows2 ex_tokens. \<forall>t<2. \<forall>v<vocab_size ex_model_args. at3 pre b t v = at3 full b t v"
    and len: "length steps = cols2 ex_tokens - 2"
    and st: "\<forall>i<cols2 ex_tokens - 2.
                   case steps ! i of
                     Inl e \<Rightarrow> False
                   | Inr step \<Rightarrow>
                       len3_0 step = rows2 ex_tokens \<and> len3_1 step = 1 \<and> len3_2 step = vocab_size ex_model_args
                       \<and> (\<forall>b<rows2 ex_tokens. \<forall>v<vocab_size ex_model_args.
                             at3 step b 0 v = at3 full b (2 + i) v)"
    by (cases "fst (Transformer_forward ex_model ex_tokens 0)"; cases r) auto
  from eq n have e1: "at3 pre 0 0 0 = at3 full 0 0 0" "at3 pre 0 0 1 = at3 full 0 0 1"
    "at3 pre 0 1 0 = at3 full 0 1 0" "at3 pre 0 1 1 = at3 full 0 1 1" by simp_all
  from st n have "case steps ! 0 of
                     Inl e \<Rightarrow> False
                   | Inr step \<Rightarrow>
                       len3_0 step = rows2 ex_tokens \<and> len3_1 step = 1 \<and> len3_2 step = vocab_size ex_model_args
                       \<and> (\<forall>b<rows2 ex_tokens. \<forall>v<vocab_size ex_model_args.
                             at3 step b 0 v = at3 full b (2 + 0) v)"
    by simp
  moreover have "0 < at3 full 0 2 1"
    using full_forward_ref [OF tf cfg sh(1,2) _ sh(5) voc] full ex_logit_from_cache n by auto
  ultimately have s0: "case steps ! 0 of
                 Inl e \<Rightarrow> False
               | Inr step \<Rightarrow> at3 step 0 0 0 = at3 full 0 2 0 \<and> at3 step 0 0 1 = at3 full 0 2 1
                   \<and> 0 < at3 step 0 0 1"
    using n by (cases "steps ! 0") simp_all
  have "case (fst (Transformer_forward ex_model ex_tokens 0),
             incremental (with_cache_contents ex_model ex_stale) ex_tokens 2) of
         (Inr full, Inr pre, steps) \<Rightarrow>
           at3 pre 0 0 0 = at3 full 0 0 0 \<and> at3 pre 0 0 1 = at3 full 0 0 1
           \<and> at3 pre 0 1 0 = at3 full 0 1 0 \<and> at3 pre 0 1 1 = at3 full 0 1 1
           \<and> length steps = 1
           \<and> (case steps ! 0 of
                 Inl e \<Rightarrow> False
               | Inr step \<Rightarrow> at3 step 0 0 0 = at3 full 0 2 0 \<and> at3 step 0 0 1 = at3 full 0 2 1
                   \<and> 0 < at3 step 0 0 1)
       | _ \<Rightarrow> False"
    unfolding full inc pre using e1 len s0 n by simp
  with tf cfg sh v3 show ?thesis by blast
qed

end
